theory Spec2Isabelle
  imports Main "HOL-Library.Sublist" "HOL-Library.AList" "HOL-Library.Word" "HOL-Library.Extended_Nat"
    "HOL-Library.Code_Target_Nat"
begin

section \<open>Strings of the embedding\<close>

text \<open>
  The TypeScript sources work on JavaScript strings. The embedding covers 7-bit text
  (what version strings, adb output and SDK listings consist of): a string is a
  \<^typ>\<open>string\<close>, and on such text \<^verbatim>\<open>trim\<close>, \<^verbatim>\<open>toLowerCase\<close>, the character
  classes of regular expressions and \<^verbatim>\<open>localeCompare\<close> behave as defined below.
  Characters outside that range are left alone by every definition.
\<close>

definition isWhiteSpace :: "char \<Rightarrow> bool" where
  \<comment> \<open>tab, line feed, vertical tab, form feed, carriage return, space\<close>
  "isWhiteSpace c \<longleftrightarrow> c \<in> set [CHR 0x09, CHR 0x0A, CHR 0x0B, CHR 0x0C, CHR 0x0D, CHR 0x20]"

definition trim :: "string \<Rightarrow> string" where
  \<comment> \<open>\<^verbatim>\<open>String.prototype.trim\<close>\<close>
  "trim s = rev (dropWhile isWhiteSpace (rev (dropWhile isWhiteSpace s)))"

definition toLowerCase_char :: "char \<Rightarrow> char" where
  "toLowerCase_char c =
     (case map_of (zip ''ABCDEFGHIJKLMNOPQRSTUVWXYZ'' ''abcdefghijklmnopqrstuvwxyz'') c of
        Some l \<Rightarrow> l
      | None \<Rightarrow> c)"

definition toLowerCase :: "string \<Rightarrow> string" where
  \<comment> \<open>\<^verbatim>\<open>String.prototype.toLowerCase\<close>\<close>
  "toLowerCase s = map toLowerCase_char s"

text \<open>
  \<^verbatim>\<open>a.localeCompare(b, undefined, { sensitivity: 'accent' })\<close> compares by the collation
  of the host, at the strength that tells base letters and accents apart and nothing
  else. In the root collation (that of English and of most locales) and on 7-bit text
  this means: letter case does not count; the control characters other than the white
  space ones (U+0000 to U+0008, U+000E to U+001F and U+007F) are ignored altogether;
  white space, punctuation, digits and letters all count, each character differently.
\<close>

definition isIgnorable :: "char \<Rightarrow> bool" where
  "isIgnorable c \<longleftrightarrow>
     (of_char c :: nat) < 9 \<or> (14 \<le> (of_char c :: nat) \<and> (of_char c :: nat) \<le> 31)
       \<or> (of_char c :: nat) = 127"

definition collation_key :: "string \<Rightarrow> string" where
  "collation_key s = map toLowerCase_char (filter (\<lambda>c. \<not> isIgnorable c) s)"

definition localeCompare_accent_equal :: "string \<Rightarrow> string \<Rightarrow> bool" where
  \<comment> \<open>\<^verbatim>\<open>a.localeCompare(b, undefined, { sensitivity: 'accent' }) === 0\<close>\<close>
  "localeCompare_accent_equal a b \<longleftrightarrow> collation_key a = collation_key b"

section \<open>Numbers of the embedding\<close>

text \<open>
  A JavaScript number is a double. The numbers that the sources compute with are
  non-negative integers and, past the largest double, \<^verbatim>\<open>Infinity\<close>: they are the
  values of \<^typ>\<open>enat\<close> that a double can hold. An integer below \<open>2 ^ 53\<close> is held
  exactly; a larger one is rounded to 53 significant bits, to the nearest double and to
  the even one of two nearest; what rounds to \<open>2 ^ 1024\<close> or more is \<^verbatim>\<open>Infinity\<close>.
  Every arithmetic operation gives the exact result, rounded in this way.
  (\<^verbatim>\<open>NaN\<close> does not arise: the sources multiply by 100 and by 10 and add.)
\<close>

function bit_length :: "nat \<Rightarrow> nat" where
  \<comment> \<open>the number of binary digits\<close>
  "bit_length n = (if n = 0 then 0 else Suc (bit_length (n div 2)))"
  by pat_completeness auto
termination
  by (relation "measure id") auto

declare bit_length.simps [simp del]

definition toDouble :: "nat \<Rightarrow> enat" where
  \<comment> \<open>the double nearest to an integer\<close>
  "toDouble n =
     (if n < 2 ^ 53 then enat n
      else (let e = bit_length n - 53;
                q = n div 2 ^ e;
                r = n mod 2 ^ e;
                m = (if 2 ^ (e - 1) < r \<or> (r = 2 ^ (e - 1) \<and> odd q) then q + 1 else q) * 2 ^ e
            in if 1024 < bit_length m then \<infinity> else enat m))"

definition round_number :: "enat \<Rightarrow> enat" where
  "round_number x = (case x of enat n \<Rightarrow> toDouble n | \<infinity> \<Rightarrow> \<infinity>)"

definition number_times :: "enat \<Rightarrow> enat \<Rightarrow> enat" where
  \<comment> \<open>\<^verbatim>\<open>a * b\<close>\<close>
  "number_times a b = round_number (a * b)"

definition number_plus :: "enat \<Rightarrow> enat \<Rightarrow> enat" where
  \<comment> \<open>\<^verbatim>\<open>a + b\<close>\<close>
  "number_plus a b = round_number (a + b)"

definition isDigit :: "char \<Rightarrow> bool" where
  "isDigit c \<longleftrightarrow> c \<in> set ''0123456789''"

definition digitValue :: "char \<Rightarrow> nat" where
  "digitValue c = of_char c - 48"

definition decimal_value :: "string \<Rightarrow> nat" where
  \<comment> \<open>the integer that a string of digits denotes\<close>
  "decimal_value s = foldl (\<lambda>n c. 10 * n + digitValue c) 0 s"

definition parseInt :: "string \<Rightarrow> enat" where
  \<comment> \<open>\<^verbatim>\<open>Number.parseInt(s, 10)\<close> on a string that starts with a digit: the double
      nearest to the value of its leading run of digits. (With no leading digit
      JavaScript gives \<^verbatim>\<open>NaN\<close>; the groups of the version pattern always start with
      one.)\<close>
  "parseInt s = toDouble (decimal_value (takeWhile isDigit s))"

definition digitChar :: "nat \<Rightarrow> char" where
  "digitChar d = char_of (48 + d)"

function decimal :: "nat \<Rightarrow> string" where
  \<comment> \<open>the decimal numeral of an integer\<close>
  "decimal n = (if n < 10 then [digitChar n] else decimal (n div 10) @ [digitChar (n mod 10)])"
  by pat_completeness auto
termination
  by (relation "measure id") auto

declare decimal.simps [simp del]

text \<open>
  A number prints with as few significant digits as tell it from every other double:
  \<open>shortest_decimal x k\<close> looks for a multiple of \<open>10 ^ k\<close> that rounds to \<open>x\<close>, the
  nearer one if two do, and tries \<open>10 ^ (k - 1)\<close> if none does; started at the power of
  ten just below the number of digits of \<open>x\<close>, it finds the decimal with the fewest
  digits. Below \<open>10 ^ 21\<close> the decimal prints in full, from there on with an exponent.
\<close>

fun shortest_decimal :: "nat \<Rightarrow> nat \<Rightarrow> nat" where
  "shortest_decimal x 0 = x"
| "shortest_decimal x (Suc k) =
     (let u = 10 ^ Suc k; lo = (x div u) * u; hi = lo + u in
      if toDouble lo = enat x \<and> toDouble hi = enat x then (if x - lo \<le> hi - x then lo else hi)
      else if toDouble lo = enat x then lo
      else if toDouble hi = enat x then hi
      else shortest_decimal x k)"

definition exponential :: "nat \<Rightarrow> string" where
  \<comment> \<open>\<^verbatim>\<open>d.ddde+n\<close>: the digits without the zeros at the end, and the exponent\<close>
  "exponential v =
     (let ds = decimal v;
          sig = rev (dropWhile (\<lambda>c. c = CHR ''0'') (rev ds))
      in (case sig of
            [] \<Rightarrow> []
          | c # cs \<Rightarrow> c # (if cs = [] then [] else CHR ''.'' # cs))
         @ ''e+'' @ decimal (length ds - 1))"

definition numberToString :: "enat \<Rightarrow> string" where
  \<comment> \<open>what a template literal prints for a number\<close>
  "numberToString x =
     (case x of
        \<infinity> \<Rightarrow> ''Infinity''
      | enat n \<Rightarrow>
          (let v = shortest_decimal n (length (decimal n) - 1)
           in if v < 10 ^ 21 then decimal v else exponential v))"

section \<open>Regular expressions\<close>

text \<open>
  The fragment of JavaScript regular expressions the sources use, with the backtracking
  semantics of ECMAScript: \<open>matches r s\<close> lists every way of matching \<open>r\<close> at the
  state \<open>s\<close>, in the order in which the backtracking matcher tries them, so the head of
  the list is the match that \<^verbatim>\<open>exec\<close> reports.
\<close>

datatype regex =
    Chars string            \<comment> \<open>one character out of a class: \<^verbatim>\<open>0\<close>, \<^verbatim>\<open>[1-9]\<close>, \<^verbatim>\<open>[-.]\<close>, \<^verbatim>\<open>[:=]\<close>\<close>
  | Many string             \<comment> \<open>greedy repetition of a class: \<^verbatim>\<open>\d*\<close>\<close>
  | Seq regex regex         \<comment> \<open>concatenation\<close>
  | Alt regex regex         \<comment> \<open>alternation \<^verbatim>\<open>a|b\<close>, the left alternative first\<close>
  | Opt regex               \<comment> \<open>greedy option \<^verbatim>\<open>(a)?\<close>\<close>
  | Group string regex      \<comment> \<open>named capture group \<^verbatim>\<open>(?<name>a)\<close>\<close>
  | Backref string          \<comment> \<open>named backreference \<^verbatim>\<open>\k<name>\<close>\<close>
  | Bol                     \<comment> \<open>\<^verbatim>\<open>^\<close>\<close>
  | Eol                     \<comment> \<open>\<^verbatim>\<open>$\<close>\<close>

record mstate =
  pos :: nat                          \<comment> \<open>index of the next character\<close>
  rest :: string                      \<comment> \<open>the input from that index on\<close>
  groups :: "(string \<times> string) list"   \<comment> \<open>the captures made so far\<close>

definition advance :: "nat \<Rightarrow> mstate \<Rightarrow> mstate" where
  "advance k s = s\<lparr>pos := pos s + k, rest := drop k (rest s)\<rparr>"

fun matches :: "regex \<Rightarrow> mstate \<Rightarrow> mstate list" where
  "matches (Chars cs) s =
     (case rest s of
        [] \<Rightarrow> []
      | c # _ \<Rightarrow> if c \<in> set cs then [advance 1 s] else [])"
| "matches (Many cs) s =
     \<comment> \<open>greedy: the longest run first, shorter ones on backtracking\<close>
     map (\<lambda>k. advance k s) (rev [0..<Suc (length (takeWhile (\<lambda>c. c \<in> set cs) (rest s)))])"
| "matches (Seq a b) s = concat (map (matches b) (matches a s))"
| "matches (Alt a b) s = matches a s @ matches b s"
| "matches (Opt a) s =
     \<comment> \<open>one iteration that consumes input, else none; an empty iteration is rejected\<close>
     filter (\<lambda>s'. pos s' \<noteq> pos s) (matches a s) @ [s]"
| "matches (Group n a) s =
     map (\<lambda>s'. s'\<lparr>groups := (n, take (pos s' - pos s) (rest s)) # groups s'\<rparr>) (matches a s)"
| "matches (Backref n) s =
     \<comment> \<open>a backreference to a group that has not participated matches the empty string\<close>
     (case map_of (groups s) n of
        None \<Rightarrow> [s]
      | Some t \<Rightarrow> if prefix t (rest s) then [advance (length t) s] else [])"
| "matches Bol s = (if pos s = 0 then [s] else [])"
| "matches Eol s = (if rest s = [] then [s] else [])"

fun exec_from :: "regex \<Rightarrow> nat \<Rightarrow> string \<Rightarrow> (nat \<times> (string \<times> string) list) option" where
  \<comment> \<open>\<^verbatim>\<open>RegExp.prototype.exec\<close> without the global flag: the first start index, from
      the left, at which the pattern matches; the result has the index and the groups\<close>
  "exec_from r i s =
     (case matches r \<lparr>pos = i, rest = s, groups = []\<rparr> of
        m # _ \<Rightarrow> Some (i, groups m)
      | [] \<Rightarrow> (case s of [] \<Rightarrow> None | _ # s' \<Rightarrow> exec_from r (Suc i) s'))"

definition exec :: "regex \<Rightarrow> string \<Rightarrow> (nat \<times> (string \<times> string) list) option" where
  "exec r input = exec_from r 0 input"

section \<open>Version (src/common/Common.ts)\<close>

datatype error =
    Error string      \<comment> \<open>\<^verbatim>\<open>new Error(message)\<close>\<close>
  | SfError string    \<comment> \<open>\<^verbatim>\<open>new SfError(message)\<close>\<close>

record Version =
  major :: enat
  minor :: enat
  patch :: enat

definition numeral_pattern :: regex where
  \<comment> \<open>\<^verbatim>\<open>0|[1-9]\d*\<close>\<close>
  "numeral_pattern = Alt (Chars ''0'') (Seq (Chars ''123456789'') (Many ''0123456789''))"

definition versionRegex :: regex where
  \<comment> \<open>\<^verbatim>\<open>/^(?<Major>0|[1-9]\d*)((?<Separator>[-.])(?<Minor>0|[1-9]\d*))?(\k<Separator>(?<Patch>0|[1-9]\d*))?$/\<close>;
      the two unnamed groups are never read, so they are grouping only\<close>
  "versionRegex =
     Seq Bol
    (Seq (Group ''Major'' numeral_pattern)
    (Seq (Opt (Seq (Group ''Separator'' (Chars ''-.'')) (Group ''Minor'' numeral_pattern)))
    (Seq (Opt (Seq (Backref ''Separator'') (Group ''Patch'' numeral_pattern)))
     Eol)))"

definition group_number :: "(string \<times> string) list \<Rightarrow> string \<Rightarrow> enat" where
  \<comment> \<open>\<^verbatim>\<open>groups?.G !== undefined ? Number.parseInt(groups.G, 10) : 0\<close>\<close>
  "group_number gs g = (case map_of gs g of Some t \<Rightarrow> parseInt t | None \<Rightarrow> 0)"

definition Version_from :: "string \<Rightarrow> Version option" where
  "Version_from input =
     (let trimmedInput = trim input in
      case exec versionRegex trimmedInput of
        None \<Rightarrow> None
      | Some (_, gs) \<Rightarrow>
          Some \<lparr>major = group_number gs ''Major'',
                minor = group_number gs ''Minor'',
                patch = group_number gs ''Patch''\<rparr>)"

definition Version_toString :: "Version \<Rightarrow> string" where
  "Version_toString v =
     numberToString (major v) @ ''.'' @ numberToString (minor v) @ ''.'' @ numberToString (patch v)"

datatype operand =
    Str string      \<comment> \<open>an operand of type \<^verbatim>\<open>string\<close>\<close>
  | Ver Version     \<comment> \<open>an operand of type \<^verbatim>\<open>Version\<close>\<close>

definition as_version :: "operand \<Rightarrow> Version option" where
  \<comment> \<open>\<^verbatim>\<open>typeof v === 'string' ? Version.from(v) : v\<close>\<close>
  "as_version v = (case v of Str s \<Rightarrow> Version_from s | Ver x \<Rightarrow> Some x)"

definition operand_toString :: "operand \<Rightarrow> string" where
  "operand_toString v = (case v of Str s \<Rightarrow> s | Ver x \<Rightarrow> Version_toString x)"

definition codename_comparing_error :: error where
  \<comment> \<open>the message is looked up in the catalogue under this key\<close>
  "codename_comparing_error = Error ''error:version:codename:comparing''"

definition Version_compare :: "operand \<Rightarrow> operand \<Rightarrow> error + int" where
  "Version_compare v1 v2 =
     (case (as_version v1, as_version v2) of
        (None, None) \<Rightarrow>
          if localeCompare_accent_equal (operand_toString v1) (operand_toString v2)
          then Inr 0
          else Inl codename_comparing_error
      | (None, Some _) \<Rightarrow> Inr 1
      | (Some _, None) \<Rightarrow> Inr (- 1)
      | (Some version1, Some version2) \<Rightarrow>
          (let num1 = number_plus (number_plus (number_times (major version1) 100)
                                               (number_times (minor version1) 10))
                                  (patch version1);
               num2 = number_plus (number_plus (number_times (major version2) 100)
                                               (number_times (minor version2) 10))
                                  (patch version2)
           in if num1 = num2 then Inr 0 else if num1 < num2 then Inr (- 1) else Inr 1))"

text \<open>
  The strings that the description of \<open>Version.from\<close> accepts are made of numerals
  without leading zeros: \<open>0\<close> itself, or a digit from 1 to 9 followed by digits.
  \<open>first_match\<close> is the match that the backtracking matcher finds first, if any.
\<close>

definition canonical_numeral :: "string \<Rightarrow> bool" where
  "canonical_numeral x \<longleftrightarrow>
     (case x of
        [] \<Rightarrow> False
      | c # cs \<Rightarrow> (c = CHR ''0'' \<and> cs = [])
                 \<or> (c \<in> set ''123456789'' \<and> list_all isDigit cs))"

definition first_match :: "regex \<Rightarrow> mstate \<Rightarrow> mstate option" where
  "first_match r s = (case matches r s of [] \<Rightarrow> None | m # _ \<Rightarrow> Some m)"

definition no_digit_next :: "string \<Rightarrow> bool" where
  "no_digit_next r \<longleftrightarrow> (case r of [] \<Rightarrow> True | c # _ \<Rightarrow> \<not> isDigit c)"

section \<open>CaseInsensitiveStringMap (src/common/Common.ts)\<close>

text \<open>
  The class wraps a \<^verbatim>\<open>Map<string, string>\<close>. A JavaScript map keeps its entries in
  insertion order and \<^verbatim>\<open>Map.set\<close> on a key that is present replaces the value in
  place, which is what an association list with \<open>AList.update\<close> does.
\<close>

type_synonym CaseInsensitiveStringMap = "(string \<times> string) list"

definition CaseInsensitiveStringMap_set ::
  "CaseInsensitiveStringMap \<Rightarrow> string \<Rightarrow> string \<Rightarrow> CaseInsensitiveStringMap" where
  "CaseInsensitiveStringMap_set m key v = AList.update (toLowerCase key) v m"

definition CaseInsensitiveStringMap_get :: "CaseInsensitiveStringMap \<Rightarrow> string \<Rightarrow> string option" where
  \<comment> \<open>\<open>None\<close> is \<^verbatim>\<open>undefined\<close>\<close>
  "CaseInsensitiveStringMap_get m key = map_of m (toLowerCase key)"

definition CaseInsensitiveStringMap_has :: "CaseInsensitiveStringMap \<Rightarrow> string \<Rightarrow> bool" where
  "CaseInsensitiveStringMap_has m key \<longleftrightarrow> map_of m (toLowerCase key) \<noteq> None"

definition prepend_char :: "char \<Rightarrow> string list \<Rightarrow> string list" where
  "prepend_char c ls = (case ls of [] \<Rightarrow> [[c]] | l # ls' \<Rightarrow> (c # l) # ls')"

fun split_lines :: "string \<Rightarrow> string list" where
  \<comment> \<open>\<^verbatim>\<open>input.split(/\r?\n/)\<close>: a line ends at a line feed, and a carriage return
      right before that line feed belongs to the line break\<close>
  "split_lines [] = [[]]"
| "split_lines [c] = (if c = CHR 0x0A then [[], []] else [[c]])"
| "split_lines (c # d # cs) =
     (if c = CHR 0x0D \<and> d = CHR 0x0A then [] # split_lines cs
      else if c = CHR 0x0A then [] # split_lines (d # cs)
      else prepend_char c (split_lines (d # cs)))"

definition fromString_line :: "CaseInsensitiveStringMap \<Rightarrow> string \<Rightarrow> CaseInsensitiveStringMap" where
  \<comment> \<open>the body of the loop over the lines\<close>
  "fromString_line resultMap line =
     (case exec (Chars '':='') line of
        None \<Rightarrow> resultMap
      | Some (index, _) \<Rightarrow>
          (let key = trim (take index line);
               v = trim (drop (index + 1) line)
           in CaseInsensitiveStringMap_set resultMap key v))"

definition fromString :: "string \<Rightarrow> CaseInsensitiveStringMap" where
  "fromString input = foldl fromString_line [] (split_lines input)"

text \<open>
  What the description of \<open>fromString\<close> says of one line: a line with no \<open>:\<close> and no
  \<open>=\<close> gives nothing; any other line gives the text before its first \<open>:\<close> or \<open>=\<close>
  as the key and the text after it as the value, both trimmed.
\<close>

definition isSeparator :: "char \<Rightarrow> bool" where
  "isSeparator c \<longleftrightarrow> c = CHR '':'' \<or> c = CHR ''=''"

definition line_entry :: "string \<Rightarrow> (string \<times> string) option" where
  "line_entry line =
     (if list_ex isSeparator line
      then Some (trim (takeWhile (\<lambda>c. \<not> isSeparator c) line),
                 trim (tl (dropWhile (\<lambda>c. \<not> isSeparator c) line)))
      else None)"

definition stored_entries :: "string \<Rightarrow> (string \<times> string) list" where
  \<comment> \<open>the entries of the lines of a text, keys in lower case, a later line first\<close>
  "stored_entries input =
     rev (List.map_filter
            (\<lambda>line. map_option (\<lambda>(key, v). (toLowerCase key, v)) (line_entry line))
            (split_lines input))"

section \<open>AndroidDevice (src/common/device/AndroidDevice.ts)\<close>

text \<open>
  The device talks to the emulator and the host through \<^verbatim>\<open>AndroidUtils\<close>,
  \<^verbatim>\<open>CryptoUtils\<close> and the \<^verbatim>\<open>fs\<close>, \<^verbatim>\<open>os\<close> and \<^verbatim>\<open>path\<close> modules of Node, none of
  which is part of the sources at hand. They are parameters of the embedding: every call
  the device makes is appended to a trace, and what a call returns or throws is given by
  the platform as a function of the trace so far and of the call's arguments. An
  \<^verbatim>\<open>async\<close> method runs its awaited calls one after the other, so it is a function of
  the device and the trace that returns its result (\<open>Inl\<close> for a rejected promise), and
  the device and the trace after it.
\<close>

record SSLCertificateData =
  derCertificate :: "8 word list"
  pemCertificate :: "string option"     \<comment> \<open>an optional field\<close>

datatype call =
    AdbCommand string int                 \<comment> \<open>\<^verbatim>\<open>AndroidUtils.executeAdbCommand(command, port)\<close>\<close>
  | StartEmulator string bool bool        \<comment> \<open>\<^verbatim>\<open>AndroidUtils.startEmulator(id, systemWritable, waitForBoot)\<close>\<close>
  | RebootEmulator int bool               \<comment> \<open>\<^verbatim>\<open>AndroidUtils.rebootEmulator(port, waitForBoot)\<close>\<close>
  | MountAsRootWritableSystem string      \<comment> \<open>\<^verbatim>\<open>AndroidUtils.mountAsRootWritableSystem(id)\<close>\<close>
  | WriteFileSync string string           \<comment> \<open>\<^verbatim>\<open>fs.writeFileSync(path, content)\<close>\<close>
  | LoggerWarn error                      \<comment> \<open>\<^verbatim>\<open>logger.warn(error)\<close>\<close>

record platform =
  adbCommand_result :: "call list \<Rightarrow> string \<Rightarrow> int \<Rightarrow> error + string"
  startEmulator_result :: "call list \<Rightarrow> string \<Rightarrow> bool \<Rightarrow> bool \<Rightarrow> error + int"
  rebootEmulator_result :: "call list \<Rightarrow> int \<Rightarrow> bool \<Rightarrow> error + unit"
  mountAsRootWritableSystem_result :: "call list \<Rightarrow> string \<Rightarrow> error + unit"
  writeFileSync_result :: "call list \<Rightarrow> string \<Rightarrow> string \<Rightarrow> error + unit"
  getSubjectHashOld :: "SSLCertificateData \<Rightarrow> error + string"
  derToPem :: "8 word list \<Rightarrow> error + string"
  os_tmpdir :: string
  path_join :: "string \<Rightarrow> string \<Rightarrow> string"

definition executeAdbCommand ::
  "platform \<Rightarrow> string \<Rightarrow> int \<Rightarrow> call list \<Rightarrow> (error + string) \<times> call list" where
  "executeAdbCommand h command p tr = (adbCommand_result h tr command p, tr @ [AdbCommand command p])"

definition startEmulator ::
  "platform \<Rightarrow> string \<Rightarrow> bool \<Rightarrow> bool \<Rightarrow> call list \<Rightarrow> (error + int) \<times> call list" where
  "startEmulator h emulatorId systemWritable waitForBoot tr =
     (startEmulator_result h tr emulatorId systemWritable waitForBoot,
      tr @ [StartEmulator emulatorId systemWritable waitForBoot])"

definition rebootEmulator ::
  "platform \<Rightarrow> int \<Rightarrow> bool \<Rightarrow> call list \<Rightarrow> (error + unit) \<times> call list" where
  "rebootEmulator h p waitForBoot tr =
     (rebootEmulator_result h tr p waitForBoot, tr @ [RebootEmulator p waitForBoot])"

definition mountAsRootWritableSystem ::
  "platform \<Rightarrow> string \<Rightarrow> call list \<Rightarrow> (error + unit) \<times> call list" where
  "mountAsRootWritableSystem h emulatorId tr =
     (mountAsRootWritableSystem_result h tr emulatorId, tr @ [MountAsRootWritableSystem emulatorId])"

definition writeFileSync ::
  "platform \<Rightarrow> string \<Rightarrow> string \<Rightarrow> call list \<Rightarrow> (error + unit) \<times> call list" where
  "writeFileSync h file content tr =
     (writeFileSync_result h tr file content, tr @ [WriteFileSync file content])"

record AndroidDevice =
  deviceId :: string          \<comment> \<open>the field \<^verbatim>\<open>id\<close>\<close>
  name :: string
  deviceType :: string        \<comment> \<open>a value of the enumeration \<^verbatim>\<open>DeviceType\<close>, by its name\<close>
  osType :: string
  osVersion :: operand
  isPlayStore :: bool
  logger :: bool              \<comment> \<open>whether the optional logger is set\<close>
  port :: int

definition AndroidDevice_new ::
  "string \<Rightarrow> string \<Rightarrow> string \<Rightarrow> string \<Rightarrow> operand \<Rightarrow> bool \<Rightarrow> bool \<Rightarrow> AndroidDevice" where
  \<comment> \<open>the constructor; the field initialiser sets the port to \<open>-1\<close>\<close>
  "AndroidDevice_new i n t os v ps lg =
     \<lparr>deviceId = i, name = n, deviceType = t, osType = os, osVersion = v,
      isPlayStore = ps, logger = lg, port = - 1\<rparr>"

definition logger_warn :: "AndroidDevice \<Rightarrow> error \<Rightarrow> call list \<Rightarrow> call list" where
  \<comment> \<open>\<^verbatim>\<open>this.logger?.warn(error)\<close>\<close>
  "logger_warn d e tr = (if logger d then tr @ [LoggerWarn e] else tr)"

definition boot ::
  "platform \<Rightarrow> bool \<Rightarrow> bool \<Rightarrow> AndroidDevice \<Rightarrow> call list
     \<Rightarrow> (error + unit) \<times> AndroidDevice \<times> call list" where
  \<comment> \<open>\<^verbatim>\<open>boot(waitForBoot = true, systemWritable = false)\<close>\<close>
  "boot h waitForBoot systemWritable d tr =
     (if systemWritable \<and> isPlayStore d
      then (Inl (SfError ''Play Store devices cannot be booted with writable system.''), d, tr)
      else (case startEmulator h (deviceId d) systemWritable waitForBoot tr of
              (Inl e, tr') \<Rightarrow> (Inl e, d, tr')
            | (Inr p, tr') \<Rightarrow> (Inr (), d\<lparr>port := p\<rparr>, tr')))"

definition reboot ::
  "platform \<Rightarrow> bool \<Rightarrow> AndroidDevice \<Rightarrow> call list
     \<Rightarrow> (error + unit) \<times> AndroidDevice \<times> call list" where
  \<comment> \<open>\<^verbatim>\<open>reboot(waitForBoot = true)\<close>; \<^verbatim>\<open>this.boot(waitForBoot)\<close> leaves
      \<^verbatim>\<open>systemWritable\<close> at its default \<^verbatim>\<open>false\<close>\<close>
  "reboot h waitForBoot d tr =
     (if port d = - 1
      then boot h waitForBoot False d tr
      else (case rebootEmulator h (port d) waitForBoot tr of (r, tr') \<Rightarrow> (r, d, tr')))"

fun split_on :: "char \<Rightarrow> string \<Rightarrow> string list" where
  \<comment> \<open>\<^verbatim>\<open>s.split(sep)\<close> for a separator of one character\<close>
  "split_on sep [] = [[]]"
| "split_on sep (c # cs) =
     (if c = sep then [] # split_on sep cs else prepend_char c (split_on sep cs))"

definition hasApp ::
  "platform \<Rightarrow> string \<Rightarrow> AndroidDevice \<Rightarrow> call list \<Rightarrow> (error + bool) \<times> call list" where
  \<open>hasApp h target d tr =
     (let pkgId = (case split_on CHR ''/'' target of [] \<Rightarrow> ''undefined'' | p # _ \<Rightarrow> p);
          (r, tr') = executeAdbCommand h (''shell pm list packages | grep "'' @ pkgId @ ''"'') (port d) tr;
          result = (case r of Inl _ \<Rightarrow> [] | Inr out \<Rightarrow> out)
      in (Inr (trim result \<noteq> []), tr'))\<close>

definition certFileName :: "string \<Rightarrow> string" where
  \<comment> \<open>\<^verbatim>\<open>`${subjectHash}.0`\<close>\<close>
  "certFileName subjectHash = subjectHash @ ''.0''"

definition isCertInstalled ::
  "platform \<Rightarrow> SSLCertificateData \<Rightarrow> AndroidDevice \<Rightarrow> call list \<Rightarrow> (error + bool) \<times> call list" where
  \<comment> \<open>the subject hash is computed before the \<^verbatim>\<open>try\<close> block; the two adb commands
      run inside it\<close>
  \<open>isCertInstalled h certData d tr =
     (case getSubjectHashOld h certData of
        Inl e \<Rightarrow> (Inl e, tr)
      | Inr subjectHash \<Rightarrow>
     (let fileName = certFileName subjectHash
      in case executeAdbCommand h ''root'' (port d) tr of
           (Inl e, tr1) \<Rightarrow> (Inr False, logger_warn d e tr1)
         | (Inr _, tr1) \<Rightarrow>
             (case executeAdbCommand h ''shell "ls /data/misc/user/0/cacerts-added"'' (port d) tr1 of
                (Inl e, tr2) \<Rightarrow> (Inr False, logger_warn d e tr2)
              | (Inr result, tr2) \<Rightarrow> (Inr (sublist fileName result), tr2))))\<close>

definition pemContent_of :: "platform \<Rightarrow> SSLCertificateData \<Rightarrow> error + string" where
  \<comment> \<open>\<^verbatim>\<open>certData.pemCertificate ?? CryptoUtils.derToPem(certData.derCertificate)\<close>\<close>
  "pemContent_of h certData =
     (case pemCertificate certData of
        Some pem \<Rightarrow> Inr pem
      | None \<Rightarrow> derToPem h (derCertificate certData))"

definition installCert ::
  "platform \<Rightarrow> SSLCertificateData \<Rightarrow> AndroidDevice \<Rightarrow> call list \<Rightarrow> (error + unit) \<times> call list" where
  \<open>installCert h certData d tr =
     (case getSubjectHashOld h certData of
        Inl e \<Rightarrow> (Inl e, tr)
      | Inr subjectHash \<Rightarrow>
     (case pemContent_of h certData of
        Inl e \<Rightarrow> (Inl e, tr)
      | Inr pemContent \<Rightarrow>
     (let fileName = certFileName subjectHash;
          certFilePath = path_join h (os_tmpdir h) fileName
      in case writeFileSync h certFilePath pemContent tr of
           (Inl e, tr1) \<Rightarrow> (Inl e, tr1)
         | (Inr _, tr1) \<Rightarrow>
        (case mountAsRootWritableSystem h (deviceId d) tr1 of
           (Inl e, tr2) \<Rightarrow> (Inl e, tr2)
         | (Inr _, tr2) \<Rightarrow>
        (case executeAdbCommand h
                (''push '' @ certFilePath @ '' /data/misc/user/0/cacerts-added/'' @ fileName)
                (port d) tr2 of
           (Inl e, tr3) \<Rightarrow> (Inl e, tr3)
         | (Inr _, tr3) \<Rightarrow>
        (case executeAdbCommand h
                (''shell "su 0 chmod 644 /data/misc/user/0/cacerts-added/'' @ fileName @ ''"'')
                (port d) tr3 of
           (Inl e, tr4) \<Rightarrow> (Inl e, tr4)
         | (Inr _, tr4) \<Rightarrow> (Inr (), tr4)))))))\<close>

text \<open>
  The description of \<open>installCert\<close> lists four steps, performed in this order, the
  first failure being the failure of the whole. \<open>installCert_steps\<close> are those steps,
  for a subject hash and a PEM text, and \<open>perform_in_order\<close> is that way of performing
  them; \<open>call_error\<close> is the error with which the platform answers a call, if it does.
\<close>

definition call_error :: "platform \<Rightarrow> call list \<Rightarrow> call \<Rightarrow> error option" where
  "call_error h tr c =
     (case c of
        AdbCommand command p \<Rightarrow>
          (case adbCommand_result h tr command p of Inl e \<Rightarrow> Some e | Inr _ \<Rightarrow> None)
      | StartEmulator i sw w \<Rightarrow>
          (case startEmulator_result h tr i sw w of Inl e \<Rightarrow> Some e | Inr _ \<Rightarrow> None)
      | RebootEmulator p w \<Rightarrow>
          (case rebootEmulator_result h tr p w of Inl e \<Rightarrow> Some e | Inr _ \<Rightarrow> None)
      | MountAsRootWritableSystem i \<Rightarrow>
          (case mountAsRootWritableSystem_result h tr i of Inl e \<Rightarrow> Some e | Inr _ \<Rightarrow> None)
      | WriteFileSync file content \<Rightarrow>
          (case writeFileSync_result h tr file content of Inl e \<Rightarrow> Some e | Inr _ \<Rightarrow> None)
      | LoggerWarn _ \<Rightarrow> None)"

fun perform_in_order :: "platform \<Rightarrow> call list \<Rightarrow> call list \<Rightarrow> (error + unit) \<times> call list" where
  "perform_in_order h tr [] = (Inr (), tr)"
| "perform_in_order h tr (c # cs) =
     (case call_error h tr c of
        Some e \<Rightarrow> (Inl e, tr @ [c])
      | None \<Rightarrow> perform_in_order h (tr @ [c]) cs)"

definition installCert_steps :: "platform \<Rightarrow> string \<Rightarrow> string \<Rightarrow> AndroidDevice \<Rightarrow> call list" where
  \<open>installCert_steps h subjectHash pemContent d =
     [WriteFileSync (path_join h (os_tmpdir h) (subjectHash @ ''.0'')) pemContent,
      MountAsRootWritableSystem (deviceId d),
      AdbCommand
        (''push '' @ path_join h (os_tmpdir h) (subjectHash @ ''.0'')
           @ '' /data/misc/user/0/cacerts-added/'' @ subjectHash @ ''.0'')
        (port d),
      AdbCommand
        (''shell "su 0 chmod 644 /data/misc/user/0/cacerts-added/'' @ subjectHash @ ''.0'' @ ''"'')
        (port d)]\<close>

section \<open>A platform and devices to run the methods on\<close>

definition example_platform :: "(string \<Rightarrow> error + string) \<Rightarrow> platform" where
  \<comment> \<open>adb answers by the command alone; a certificate with no PEM text and no DER bytes
      cannot be read; everything else succeeds\<close>
  "example_platform adb =
     \<lparr>adbCommand_result = (\<lambda>tr command p. adb command),
      startEmulator_result = (\<lambda>tr emulatorId systemWritable waitForBoot. Inr 5554),
      rebootEmulator_result = (\<lambda>tr p waitForBoot. Inr ()),
      mountAsRootWritableSystem_result = (\<lambda>tr emulatorId. Inr ()),
      writeFileSync_result = (\<lambda>tr file content. Inr ()),
      getSubjectHashOld =
        (\<lambda>certData. if pemCertificate certData = None \<and> derCertificate certData = []
                   then Inl (Error ''Too few bytes to parse DER.'')
                   else Inr ''9a5ba575''),
      derToPem =
        (\<lambda>der. if der = [] then Inl (Error ''Too few bytes to parse DER.'')
              else Inr ''PEM from DER''),
      os_tmpdir = ''/tmp'',
      path_join = (\<lambda>dir file. dir @ ''/'' @ file)\<rparr>"

definition example_device :: "bool \<Rightarrow> AndroidDevice" where
  "example_device playStore =
     AndroidDevice_new ''Pixel_5_API_33'' ''Pixel 5 API 33'' ''mobile'' ''google_apis''
       (Str ''13'') playStore True"

section \<open>Properties of Version\<close>

lemma as_version_None: "as_version v = None \<Longrightarrow> \<exists>s. v = Str s \<and> Version_from s = None"
  by (cases v) (simp_all add: as_version_def)

lemma two_power_53: "(2::enat) ^ 53 = enat 9007199254740992"
  by (simp add: of_nat_eq_enat [symmetric])

lemma toDouble_exact: "n < 9007199254740992 \<Longrightarrow> toDouble n = enat n"
  by (simp add: toDouble_def)

lemma weighted_sum_exact:
  assumes "major a * 100 + minor a * 10 + patch a < 2 ^ 53"
  shows "number_plus (number_plus (number_times (major a) 100) (number_times (minor a) 10))
           (patch a) = major a * 100 + minor a * 10 + patch a"
proof -
  from assms obtain x where x: "major a = enat x"
    by (cases "major a") (auto simp: numeral_eq_enat)
  from assms obtain y where y: "minor a = enat y"
    by (cases "minor a") (auto simp: numeral_eq_enat)
  from assms obtain z where z: "patch a = enat z"
    by (cases "patch a") (auto simp: numeral_eq_enat)
  from assms have bound: "x * 100 + y * 10 + z < 9007199254740992"
    unfolding two_power_53 by (simp add: x y z numeral_eq_enat)
  then have "x * 100 < 9007199254740992" "y * 10 < 9007199254740992"
    "x * 100 + y * 10 < 9007199254740992"
    by simp_all
  with bound show ?thesis
    by (simp add: x y z number_plus_def number_times_def round_number_def numeral_eq_enat
        toDouble_exact)
qed

text \<open>
  C1. When both operands of \<open>Version.compare\<close> are numeric versions and their weighted
  sums \<open>major * 100 + minor * 10 + patch\<close> are below \<open>2 ^ 53\<close>, the result is the sign
  of the difference of the sums: \<open>-1\<close> when the first sum is smaller, \<open>0\<close> when the
  sums are equal, \<open>1\<close> when it is larger. So two different versions can compare as
  equal once a minor or patch component reaches 10, as \<open>1.0.10\<close> and \<open>1.1.0\<close> do.
  (From \<open>2 ^ 53\<close> on the code sums in rounded doubles, and two versions with different
  sums can have the same rounded sum.)
\<close>

theorem Version_compare_numeric:
  "(\<forall>v1 v2 a b. as_version v1 = Some a \<longrightarrow> as_version v2 = Some b \<longrightarrow>
      major a * 100 + minor a * 10 + patch a < 2 ^ 53 \<longrightarrow>
      major b * 100 + minor b * 10 + patch b < 2 ^ 53 \<longrightarrow>
      Version_compare v1 v2 =
        Inr (if major a * 100 + minor a * 10 + patch a < major b * 100 + minor b * 10 + patch b
             then - 1
             else if major a * 100 + minor a * 10 + patch a = major b * 100 + minor b * 10 + patch b
             then 0
             else 1))
   \<and> Version_from ''1.0.10'' = Some \<lparr>major = 1, minor = 0, patch = 10\<rparr>
   \<and> Version_from ''1.1.0'' = Some \<lparr>major = 1, minor = 1, patch = 0\<rparr>
   \<and> Version_compare (Str ''1.0.10'') (Str ''1.1.0'') = Inr 0"
proof (intro conjI allI impI)
  fix v1 v2 a b
  assume "as_version v1 = Some a" and "as_version v2 = Some b"
    and "major a * 100 + minor a * 10 + patch a < 2 ^ 53"
    and "major b * 100 + minor b * 10 + patch b < 2 ^ 53"
  then show "Version_compare v1 v2 =
        Inr (if major a * 100 + minor a * 10 + patch a < major b * 100 + minor b * 10 + patch b
             then - 1
             else if major a * 100 + minor a * 10 + patch a = major b * 100 + minor b * 10 + patch b
             then 0
             else 1)"
    by (simp add: Version_compare_def Let_def weighted_sum_exact)
next
  show "Version_from ''1.0.10'' = Some \<lparr>major = 1, minor = 0, patch = 10\<rparr>"
    by code_simp
next
  show "Version_from ''1.1.0'' = Some \<lparr>major = 1, minor = 1, patch = 0\<rparr>"
    by code_simp
next
  show "Version_compare (Str ''1.0.10'') (Str ''1.1.0'') = Inr 0"
    by code_simp
qed

theorem Version_compare_numeric_witness:
  "as_version (Str ''2.3.4'') = Some \<lparr>major = 2, minor = 3, patch = 4\<rparr>
   \<and> as_version (Ver \<lparr>major = 2, minor = 4, patch = 0\<rparr>) = Some \<lparr>major = 2, minor = 4, patch = 0\<rparr>
   \<and> (2 * 100 + 3 * 10 + 4 :: enat) < 2 ^ 53
   \<and> (2 * 100 + 4 * 10 + 0 :: enat) < 2 ^ 53
   \<and> Version_compare (Str ''2.3.4'') (Ver \<lparr>major = 2, minor = 4, patch = 0\<rparr>) = Inr (- 1)"
proof -
  let ?a = "\<lparr>major = 2, minor = 3, patch = 4\<rparr>"
  let ?b = "\<lparr>major = 2, minor = 4, patch = 0\<rparr>"
  have a: "as_version (Str ''2.3.4'') = Some ?a"
    by code_simp
  have b: "as_version (Ver ?b) = Some ?b"
    by (simp add: as_version_def)
  have wa: "major ?a * 100 + minor ?a * 10 + patch ?a < 2 ^ 53"
    unfolding two_power_53 by (simp add: numeral_eq_enat)
  have wb: "major ?b * 100 + minor ?b * 10 + patch ?b < 2 ^ 53"
    unfolding two_power_53 by (simp add: numeral_eq_enat)
  have less: "major ?a * 100 + minor ?a * 10 + patch ?a < major ?b * 100 + minor ?b * 10 + patch ?b"
    by (simp add: numeral_eq_enat)
  from Version_compare_numeric a b wa wb
  have "Version_compare (Str ''2.3.4'') (Ver ?b) =
        Inr (if major ?a * 100 + minor ?a * 10 + patch ?a < major ?b * 100 + minor ?b * 10 + patch ?b
             then - 1
             else if major ?a * 100 + minor ?a * 10 + patch ?a = major ?b * 100 + minor ?b * 10 + patch ?b
             then 0
             else 1)"
    by blast
  with less have "Version_compare (Str ''2.3.4'') (Ver ?b) = Inr (- 1)"
    by simp
  with a b wa wb show ?thesis by simp
qed

lemma bit_length_bounds:
  "bit_length n \<le> k \<longleftrightarrow> n < 2 ^ k"
proof (induction k arbitrary: n)
  case 0
  show ?case by (subst bit_length.simps) simp
next
  case (Suc k)
  show ?case
  proof (cases "n = 0")
    case True
    then show ?thesis by (subst bit_length.simps) simp
  next
    case False
    have "bit_length n \<le> Suc k \<longleftrightarrow> bit_length (n div 2) \<le> k"
      using False by (subst bit_length.simps) simp
    also have "\<dots> \<longleftrightarrow> n div 2 < 2 ^ k"
      by (rule Suc.IH)
    also have "\<dots> \<longleftrightarrow> n < 2 ^ Suc k"
      by auto
    finally show ?thesis .
  qed
qed

lemma bit_length_eq:
  assumes "2 ^ k \<le> n" and "n < 2 ^ Suc k"
  shows "bit_length n = Suc k"
proof -
  have "bit_length n \<le> Suc k"
    using assms(2) by (simp add: bit_length_bounds)
  moreover have "\<not> bit_length n \<le> k"
    using assms(1) by (simp add: bit_length_bounds)
  ultimately show ?thesis by simp
qed

lemma parseInt_90071992547410: "parseInt ''90071992547410'' = 90071992547410"
proof -
  have "takeWhile isDigit ''90071992547410'' = ''90071992547410''"
    by (simp add: isDigit_def)
  moreover have "decimal_value ''90071992547410'' = 90071992547410"
    by (simp add: decimal_value_def digitValue_def)
  ultimately show ?thesis
    by (simp add: parseInt_def toDouble_exact numeral_eq_enat)
qed

lemma toDouble_9007199254741001: "toDouble 9007199254741001 = enat 9007199254741000"
proof -
  have "bit_length 9007199254741001 = Suc 53"
    by (rule bit_length_eq) simp_all
  moreover have "bit_length 9007199254741000 = Suc 53"
    by (rule bit_length_eq) simp_all
  ultimately show ?thesis
    by (simp add: toDouble_def Let_def)
qed

lemma toDouble_9007199254741000: "toDouble 9007199254741000 = enat 9007199254741000"
proof -
  have "bit_length 9007199254741000 = Suc 53"
    by (rule bit_length_eq) simp_all
  then show ?thesis
    by (simp add: toDouble_def Let_def)
qed

text \<open>
  At \<open>2 ^ 53\<close> the bound is needed: \<open>90071992547410.0.1\<close> and \<open>90071992547410.0.0\<close>
  have the sums \<open>9007199254741001\<close> and \<open>9007199254741000\<close>; the first is not a double
  and rounds to the second, so the two versions compare as equal.
\<close>

theorem Version_compare_rounded_sums:
  "Version_from ''90071992547410.0.1'' = Some \<lparr>major = 90071992547410, minor = 0, patch = 1\<rparr>
   \<and> Version_from ''90071992547410.0.0'' = Some \<lparr>major = 90071992547410, minor = 0, patch = 0\<rparr>
   \<and> (90071992547410 * 100 + 0 * 10 + 0 :: enat) < 90071992547410 * 100 + 0 * 10 + 1
   \<and> Version_compare (Str ''90071992547410.0.1'') (Str ''90071992547410.0.0'') = Inr 0"
proof -
  have groups1: "exec versionRegex (trim ''90071992547410.0.1'')
      = Some (0, [(''Patch'', ''1''), (''Minor'', ''0''), (''Separator'', ''.''),
                  (''Major'', ''90071992547410'')])"
    by code_simp
  have groups0: "exec versionRegex (trim ''90071992547410.0.0'')
      = Some (0, [(''Patch'', ''0''), (''Minor'', ''0''), (''Separator'', ''.''),
                  (''Major'', ''90071992547410'')])"
    by code_simp
  have small: "parseInt ''0'' = 0" "parseInt ''1'' = 1"
    by code_simp+
  have v1: "Version_from ''90071992547410.0.1''
              = Some \<lparr>major = 90071992547410, minor = 0, patch = 1\<rparr>"
    by (simp add: Version_from_def groups1 group_number_def parseInt_90071992547410 small)
  have v0: "Version_from ''90071992547410.0.0''
              = Some \<lparr>major = 90071992547410, minor = 0, patch = 0\<rparr>"
    by (simp add: Version_from_def groups0 group_number_def parseInt_90071992547410 small)
  have sums: "(90071992547410 * 100 + 0 * 10 + 0 :: enat) < 90071992547410 * 100 + 0 * 10 + 1"
    by (simp add: numeral_eq_enat one_enat_def)
  have "Version_compare (Str ''90071992547410.0.1'') (Str ''90071992547410.0.0'') = Inr 0"
    by (simp add: Version_compare_def as_version_def v1 v0 number_plus_def number_times_def
        round_number_def numeral_eq_enat one_enat_def zero_enat_def
        toDouble_9007199254741001 toDouble_9007199254741000 toDouble_exact)
  with v1 v0 sums show ?thesis by blast
qed

text \<open>
  C2. When both operands of \<open>Version.compare\<close> fail to parse (two codenames), the
  result is \<open>0\<close> if the two strings are equal for the collation at accent sensitivity,
  and the codename-comparison error if they are not; it is never \<open>-1\<close> or \<open>1\<close>. On
  7-bit text the strings are equal for the collation when they are equal up to letter
  case once the control characters that the collation ignores are dropped; for strings
  without such characters, when they are equal up to letter case.
\<close>

theorem Version_compare_codenames:
  assumes "Version_from s1 = None" and "Version_from s2 = None"
  shows "Version_compare (Str s1) (Str s2) =
           (if collation_key s1 = collation_key s2 then Inr 0 else Inl codename_comparing_error)
         \<and> ((\<forall>c\<in>set s1 \<union> set s2. \<not> isIgnorable c) \<longrightarrow>
              Version_compare (Str s1) (Str s2) =
                (if toLowerCase s1 = toLowerCase s2 then Inr 0 else Inl codename_comparing_error))
         \<and> Version_compare (Str s1) (Str s2) \<noteq> Inr 1
         \<and> Version_compare (Str s1) (Str s2) \<noteq> Inr (- 1)"
proof -
  have key: "\<And>s. (\<forall>c\<in>set s. \<not> isIgnorable c) \<Longrightarrow> collation_key s = toLowerCase s"
    by (simp add: collation_key_def toLowerCase_def filter_id_conv)
  have compare: "Version_compare (Str s1) (Str s2) =
           (if collation_key s1 = collation_key s2 then Inr 0 else Inl codename_comparing_error)"
    using assms
    by (simp add: Version_compare_def as_version_def operand_toString_def
        localeCompare_accent_equal_def)
  moreover have "(\<forall>c\<in>set s1 \<union> set s2. \<not> isIgnorable c) \<longrightarrow>
     Version_compare (Str s1) (Str s2) =
       (if toLowerCase s1 = toLowerCase s2 then Inr 0 else Inl codename_comparing_error)"
    using compare key [of s1] key [of s2] by auto
  ultimately show ?thesis by simp
qed

theorem Version_compare_codenames_witness:
  "Version_from ''Tiramisu'' = None \<and> Version_from ''TIRAMISU'' = None
   \<and> Version_from ''UpsideDownCake'' = None
   \<and> Version_compare (Str ''Tiramisu'') (Str ''TIRAMISU'') = Inr 0
   \<and> Version_compare (Str ''Tiramisu'') (Str ''UpsideDownCake'') = Inl codename_comparing_error"
proof -
  have a: "Version_from ''Tiramisu'' = None" by code_simp
  have b: "Version_from ''TIRAMISU'' = None" by code_simp
  have c: "Version_from ''UpsideDownCake'' = None" by code_simp
  have plain: "\<forall>c\<in>set ''Tiramisu'' \<union> set ''TIRAMISU''. \<not> isIgnorable c"
    "\<forall>c\<in>set ''Tiramisu'' \<union> set ''UpsideDownCake''. \<not> isIgnorable c"
    by code_simp+
  have same: "toLowerCase ''Tiramisu'' = toLowerCase ''TIRAMISU''" by code_simp
  have diff: "toLowerCase ''Tiramisu'' \<noteq> toLowerCase ''UpsideDownCake''" by code_simp
  from Version_compare_codenames [OF a b] plain(1)
  have "Version_compare (Str ''Tiramisu'') (Str ''TIRAMISU'') =
          (if toLowerCase ''Tiramisu'' = toLowerCase ''TIRAMISU'' then Inr 0
           else Inl codename_comparing_error)"
    by blast
  with same have "Version_compare (Str ''Tiramisu'') (Str ''TIRAMISU'') = Inr 0"
    by simp
  moreover from Version_compare_codenames [OF a c] plain(2)
  have "Version_compare (Str ''Tiramisu'') (Str ''UpsideDownCake'') =
          (if toLowerCase ''Tiramisu'' = toLowerCase ''UpsideDownCake'' then Inr 0
           else Inl codename_comparing_error)"
    by blast
  with diff have "Version_compare (Str ''Tiramisu'') (Str ''UpsideDownCake'')
                    = Inl codename_comparing_error"
    by simp
  ultimately show ?thesis using a b c by blast
qed

text \<open>
  Equality up to letter case alone does not decide: \<open>a\<close> and \<open>a\<close> followed by the
  control character U+0001 are two codenames that differ, also up to case, and compare
  as equal.
\<close>

theorem Version_compare_ignored_character:
  "Version_from ''a'' = None
   \<and> Version_from [CHR ''a'', CHR 0x01] = None
   \<and> toLowerCase ''a'' \<noteq> toLowerCase [CHR ''a'', CHR 0x01]
   \<and> Version_compare (Str ''a'') (Str [CHR ''a'', CHR 0x01]) = Inr 0"
  by (intro conjI; code_simp)

text \<open>
  C3. When exactly one operand of \<open>Version.compare\<close> parses as a numeric version, the
  other one, the codename, is the newer: the result is \<open>1\<close> when the first operand is
  the codename and \<open>-1\<close> when the second is, whatever the numeric version is. So
  \<open>99.0.0\<close> is older than \<open>Tiramisu\<close>.
\<close>

theorem Version_compare_codename_newer:
  "(as_version v1 = None \<longrightarrow> as_version v2 \<noteq> None \<longrightarrow> Version_compare v1 v2 = Inr 1)
   \<and> (as_version v1 \<noteq> None \<longrightarrow> as_version v2 = None \<longrightarrow> Version_compare v1 v2 = Inr (- 1))"
  by (auto simp: Version_compare_def)

theorem Version_compare_codename_newer_witness:
  "as_version (Str ''99.0.0'') \<noteq> None \<and> as_version (Str ''Tiramisu'') = None
   \<and> Version_compare (Str ''99.0.0'') (Str ''Tiramisu'') = Inr (- 1)
   \<and> Version_compare (Str ''Tiramisu'') (Str ''99.0.0'') = Inr 1"
proof -
  have a: "as_version (Str ''99.0.0'') \<noteq> None" by code_simp
  have b: "as_version (Str ''Tiramisu'') = None" by code_simp
  from Version_compare_codename_newer [of "Str ''99.0.0''" "Str ''Tiramisu''"] a b
  have "Version_compare (Str ''99.0.0'') (Str ''Tiramisu'') = Inr (- 1)"
    by blast
  moreover from Version_compare_codename_newer [of "Str ''Tiramisu''" "Str ''99.0.0''"] a b
  have "Version_compare (Str ''Tiramisu'') (Str ''99.0.0'') = Inr 1"
    by blast
  ultimately show ?thesis using a b by blast
qed

text \<open>
  C4. \<open>Version.from\<close> is meant to parse \<open>x[.y[.z]]\<close> and \<open>x[-y[-z]]\<close> (no leading
  zeros, one kind of separator), to print such a version in the dotted form with the
  missing components \<open>0\<close>, and to return null for every other string, among them the
  strings with a leading zero. The pattern accepts a \<open>0\<close> followed at once by a numeral:
  when the group of the separator and the minor component does not take part, the
  backreference to the separator matches the empty string and the numeral becomes the
  patch component. So \<open>01\<close> parses as \<open>0.0.1\<close> where null is expected.
\<close>

theorem Version_from_leading_zero:
  "Version_from ''01'' = Some \<lparr>major = 0, minor = 0, patch = 1\<rparr>
   \<and> map_option Version_toString (Version_from ''01'') = Some ''0.0.1''
   \<and> Version_from ''0123'' = Some \<lparr>major = 0, minor = 0, patch = 123\<rparr>"
  by (intro conjI; code_simp)

text \<open>The examples of the comment in \<open>Version.from\<close>, and the one of the description.\<close>

lemma Version_from_examples:
  "Version_from ''1.0.0'' = Some \<lparr>major = 1, minor = 0, patch = 0\<rparr>"
  "Version_from ''2-1-2'' = Some \<lparr>major = 2, minor = 1, patch = 2\<rparr>"
  "Version_from ''3.1-4'' = None"
  "Version_from ''4.5'' = Some \<lparr>major = 4, minor = 5, patch = 0\<rparr>"
  "Version_from ''6'' = Some \<lparr>major = 6, minor = 0, patch = 0\<rparr>"
  "Version_from ''7..8'' = None"
  "Version_from ''001.002'' = None"
  "map_option Version_toString (Version_from ''7'') = Some ''7.0.0''"
  by code_simp+

text \<open>
  The strings that \<open>Version.from\<close> is meant to accept, it accepts. A numeral without
  leading zeros, two of them or three of them, joined by dots or by dashes (the same
  separator twice), with white space around, parse to the doubles nearest to their values
  with the missing components \<open>0\<close>; with numerals below \<open>2 ^ 53\<close> the version
  prints as the numerals joined by dots. A string that is empty or does not start with a
  digit, as a codename does, gives null.
\<close>

lemma many_head:
  assumes "list_all (\<lambda>c. c \<in> set D) cs" and "case r of [] \<Rightarrow> True | c # _ \<Rightarrow> c \<notin> set D"
  shows "\<exists>t. matches (Many D) \<lparr>pos = i, rest = cs @ r, groups = g\<rparr>
           = \<lparr>pos = i + length cs, rest = r, groups = g\<rparr> # t"
proof -
  have "takeWhile (\<lambda>c. c \<in> set D) r = []"
    using assms(2) by (cases r) simp_all
  then have tw: "takeWhile (\<lambda>c. c \<in> set D) (cs @ r) = cs"
    using assms(1) by (simp add: list_all_iff)
  show ?thesis
    by (simp add: tw advance_def)
qed

lemma numeral_head:
  assumes "canonical_numeral x" and "no_digit_next r"
  shows "\<exists>t. matches numeral_pattern \<lparr>pos = i, rest = x @ r, groups = g\<rparr>
           = \<lparr>pos = i + length x, rest = r, groups = g\<rparr> # t"
proof -
  from assms(1) obtain c cs where x: "x = c # cs"
    and c: "(c = CHR ''0'' \<and> cs = []) \<or> (c \<in> set ''123456789'' \<and> list_all isDigit cs)"
    by (auto simp: canonical_numeral_def split: list.splits)
  from c show ?thesis
  proof
    assume "c = CHR ''0'' \<and> cs = []"
    then show ?thesis by (simp add: x numeral_pattern_def advance_def)
  next
    assume nz: "c \<in> set ''123456789'' \<and> list_all isDigit cs"
    then have c0: "c \<noteq> CHR ''0''" by auto
    have ds: "list_all (\<lambda>c. c \<in> set ''0123456789'') cs"
      using nz by (simp add: isDigit_def list_all_iff)
    have nd: "case r of [] \<Rightarrow> True | c # _ \<Rightarrow> c \<notin> set ''0123456789''"
      using assms(2) by (simp add: no_digit_next_def isDigit_def split: list.splits)
    from many_head [OF ds nd, of "Suc i" g]
    obtain t where "matches (Many ''0123456789'') \<lparr>pos = Suc i, rest = cs @ r, groups = g\<rparr>
           = \<lparr>pos = Suc i + length cs, rest = r, groups = g\<rparr> # t"
      by blast
    then show ?thesis
      using nz c0 by (simp add: x numeral_pattern_def advance_def del: matches.simps(2))
  qed
qed

lemma numeral_fail:
  assumes "no_digit_next (rest s)"
  shows "matches numeral_pattern s = []"
  using assms
  by (cases "rest s") (auto simp: numeral_pattern_def no_digit_next_def isDigit_def)


lemma first_matchI: "matches r s = m # t \<Longrightarrow> first_match r s = Some m"
  by (simp add: first_match_def)

lemma first_matchD: "first_match r s = Some m \<Longrightarrow> \<exists>t. matches r s = m # t"
  by (cases "matches r s") (simp_all add: first_match_def)

lemma numeral_first:
  assumes "canonical_numeral x" and "no_digit_next r"
  shows "first_match numeral_pattern \<lparr>pos = i, rest = x @ r, groups = g\<rparr>
           = Some \<lparr>pos = i + length x, rest = r, groups = g\<rparr>"
  using numeral_head [OF assms, of i g] by (auto intro: first_matchI)

lemma group_first:
  assumes "first_match a s = Some m"
  shows "first_match (Group n a) s
           = Some (m\<lparr>groups := (n, take (pos m - pos s) (rest s)) # groups m\<rparr>)"
  using first_matchD [OF assms] by (auto simp: first_match_def)

lemma seq_first:
  assumes "first_match a s = Some m" and "first_match b m = Some m'"
  shows "first_match (Seq a b) s = Some m'"
  using first_matchD [OF assms(1)] first_matchD [OF assms(2)] by (auto simp: first_match_def)

lemma opt_first:
  assumes "first_match a s = Some m" and "pos m \<noteq> pos s"
  shows "first_match (Opt a) s = Some m"
  using first_matchD [OF assms(1)] assms(2) by (auto simp: first_match_def)

lemma opt_skip: "matches a s = [] \<Longrightarrow> matches (Opt a) s = [s]"
  by simp

lemma patch_group_skipped:
  assumes "rest s = []"
  shows "matches (Opt (Seq (Backref ''Separator'') (Group ''Patch'' numeral_pattern))) s = [s]"
proof -
  have "no_digit_next (rest s)"
    using assms by (simp add: no_digit_next_def)
  then have "matches (Group ''Patch'' numeral_pattern) s = []"
    by (simp add: numeral_fail)
  moreover have "matches (Backref ''Separator'') s = [s] \<or> matches (Backref ''Separator'') s = []"
    using assms by (auto simp: advance_def split: option.splits)
  ultimately have "matches (Seq (Backref ''Separator'') (Group ''Patch'' numeral_pattern)) s = []"
    by auto
  then show ?thesis by (rule opt_skip)
qed

lemma minor_group_skipped:
  assumes "rest s = []"
  shows "matches (Opt (Seq (Group ''Separator'' (Chars ''-.'')) (Group ''Minor'' numeral_pattern))) s = [s]"
  using assms by simp

lemma exec_first:
  assumes "first_match r \<lparr>pos = 0, rest = input, groups = []\<rparr> = Some m"
  shows "exec r input = Some (0, groups m)"
  using first_matchD [OF assms] by (auto simp: exec_def)

lemma version_major_only:
  assumes x: "canonical_numeral x"
  shows "exec versionRegex x = Some (0, [(''Major'', x)])"
proof -
  let ?s1 = "\<lparr>pos = length x, rest = [], groups = [(''Major'', x)]\<rparr>"
  have nd: "no_digit_next []" by (simp add: no_digit_next_def)
  have "first_match (Group ''Major'' numeral_pattern) \<lparr>pos = 0, rest = x, groups = []\<rparr> = Some ?s1"
    using group_first [OF numeral_first [OF x nd, of 0 "[]"], of "''Major''"] by simp
  then obtain t where "matches (Group ''Major'' numeral_pattern) \<lparr>pos = 0, rest = x, groups = []\<rparr> = ?s1 # t"
    by (auto dest: first_matchD)
  moreover have "matches (Opt (Seq (Group ''Separator'' (Chars ''-.'')) (Group ''Minor'' numeral_pattern))) ?s1 = [?s1]"
    by (rule minor_group_skipped) simp
  moreover have "matches (Opt (Seq (Backref ''Separator'') (Group ''Patch'' numeral_pattern))) ?s1 = [?s1]"
    by (rule patch_group_skipped) simp
  ultimately have "first_match versionRegex \<lparr>pos = 0, rest = x, groups = []\<rparr> = Some ?s1"
    by (simp add: versionRegex_def first_match_def del: matches.simps(5,6))
  from exec_first [OF this] show ?thesis by simp
qed


lemma separator_no_digit:
  assumes "sep = CHR ''.'' \<or> sep = CHR ''-''"
  shows "no_digit_next (sep # r)" and "sep \<in> set ''-.''"
  using assms by (auto simp: no_digit_next_def isDigit_def)

lemma version_major_minor:
  assumes x: "canonical_numeral x" and y: "canonical_numeral y"
    and sep: "sep = CHR ''.'' \<or> sep = CHR ''-''"
  shows "exec versionRegex (x @ sep # y)
           = Some (0, [(''Minor'', y), (''Separator'', [sep]), (''Major'', x)])"
proof -
  let ?s0 = "\<lparr>pos = 0, rest = x @ sep # y, groups = []\<rparr>"
  let ?s1 = "\<lparr>pos = length x, rest = sep # y, groups = [(''Major'', x)]\<rparr>"
  let ?s2 = "\<lparr>pos = Suc (length x), rest = y, groups = [(''Separator'', [sep]), (''Major'', x)]\<rparr>"
  let ?s3 = "\<lparr>pos = Suc (length x) + length y, rest = [],
              groups = [(''Minor'', y), (''Separator'', [sep]), (''Major'', x)]\<rparr>"
  have nd: "no_digit_next []" by (simp add: no_digit_next_def)
  have major: "first_match (Group ''Major'' numeral_pattern) ?s0 = Some ?s1"
    using group_first [OF numeral_first [OF x separator_no_digit(1) [OF sep], of 0 y "[]"], of "''Major''"]
    by simp
  have separator: "first_match (Group ''Separator'' (Chars ''-.'')) ?s1 = Some ?s2"
    using separator_no_digit(2) [OF sep] by (simp add: first_match_def advance_def)
  have minor: "first_match (Group ''Minor'' numeral_pattern) ?s2 = Some ?s3"
    using group_first [OF numeral_first [OF y nd, of "Suc (length x)"
        "[(''Separator'', [sep]), (''Major'', x)]"], of "''Minor''"]
    by simp
  have "first_match (Seq (Group ''Separator'' (Chars ''-.'')) (Group ''Minor'' numeral_pattern)) ?s1
          = Some ?s3"
    by (rule seq_first [OF separator minor])
  then have second: "first_match
      (Opt (Seq (Group ''Separator'' (Chars ''-.'')) (Group ''Minor'' numeral_pattern))) ?s1 = Some ?s3"
    by (rule opt_first) simp
  have "matches (Opt (Seq (Backref ''Separator'') (Group ''Patch'' numeral_pattern))) ?s3 = [?s3]"
    by (rule patch_group_skipped) simp
  then have third: "first_match
      (Opt (Seq (Backref ''Separator'') (Group ''Patch'' numeral_pattern))) ?s3 = Some ?s3"
    by (rule first_matchI)
  have eol: "first_match Eol ?s3 = Some ?s3"
    by (simp add: first_match_def)
  have bol: "first_match Bol ?s0 = Some ?s0"
    by (simp add: first_match_def)
  have "first_match versionRegex ?s0 = Some ?s3"
    unfolding versionRegex_def
    by (rule seq_first [OF bol seq_first [OF major seq_first [OF second seq_first [OF third eol]]]])
  from exec_first [OF this] show ?thesis by simp
qed

lemma version_major_minor_patch:
  assumes x: "canonical_numeral x" and y: "canonical_numeral y" and z: "canonical_numeral z"
    and sep: "sep = CHR ''.'' \<or> sep = CHR ''-''"
  shows "exec versionRegex (x @ sep # y @ sep # z)
           = Some (0, [(''Patch'', z), (''Minor'', y), (''Separator'', [sep]), (''Major'', x)])"
proof -
  let ?s0 = "\<lparr>pos = 0, rest = x @ sep # y @ sep # z, groups = []\<rparr>"
  let ?s1 = "\<lparr>pos = length x, rest = sep # y @ sep # z, groups = [(''Major'', x)]\<rparr>"
  let ?s2 = "\<lparr>pos = Suc (length x), rest = y @ sep # z,
              groups = [(''Separator'', [sep]), (''Major'', x)]\<rparr>"
  let ?s3 = "\<lparr>pos = Suc (length x) + length y, rest = sep # z,
              groups = [(''Minor'', y), (''Separator'', [sep]), (''Major'', x)]\<rparr>"
  let ?s4 = "\<lparr>pos = Suc (Suc (length x) + length y), rest = z,
              groups = [(''Minor'', y), (''Separator'', [sep]), (''Major'', x)]\<rparr>"
  let ?s5 = "\<lparr>pos = Suc (Suc (length x) + length y) + length z, rest = [],
              groups = [(''Patch'', z), (''Minor'', y), (''Separator'', [sep]), (''Major'', x)]\<rparr>"
  have nd: "no_digit_next []" by (simp add: no_digit_next_def)
  have major: "first_match (Group ''Major'' numeral_pattern) ?s0 = Some ?s1"
    using group_first [OF numeral_first [OF x separator_no_digit(1) [OF sep], of 0 "y @ sep # z" "[]"],
        of "''Major''"]
    by simp
  have separator: "first_match (Group ''Separator'' (Chars ''-.'')) ?s1 = Some ?s2"
    using separator_no_digit(2) [OF sep] by (simp add: first_match_def advance_def)
  have minor: "first_match (Group ''Minor'' numeral_pattern) ?s2 = Some ?s3"
    using group_first [OF numeral_first [OF y separator_no_digit(1) [OF sep], of "Suc (length x)" z
        "[(''Separator'', [sep]), (''Major'', x)]"], of "''Minor''"]
    by simp
  have "first_match (Seq (Group ''Separator'' (Chars ''-.'')) (Group ''Minor'' numeral_pattern)) ?s1
          = Some ?s3"
    by (rule seq_first [OF separator minor])
  then have second: "first_match
      (Opt (Seq (Group ''Separator'' (Chars ''-.'')) (Group ''Minor'' numeral_pattern))) ?s1 = Some ?s3"
    by (rule opt_first) simp
  have backref: "first_match (Backref ''Separator'') ?s3 = Some ?s4"
    by (simp add: first_match_def advance_def)
  have patch: "first_match (Group ''Patch'' numeral_pattern) ?s4 = Some ?s5"
    using group_first [OF numeral_first [OF z nd, of "Suc (Suc (length x) + length y)"
        "[(''Minor'', y), (''Separator'', [sep]), (''Major'', x)]"], of "''Patch''"]
    by simp
  have "first_match (Seq (Backref ''Separator'') (Group ''Patch'' numeral_pattern)) ?s3 = Some ?s5"
    by (rule seq_first [OF backref patch])
  then have third: "first_match
      (Opt (Seq (Backref ''Separator'') (Group ''Patch'' numeral_pattern))) ?s3 = Some ?s5"
    by (rule opt_first) simp
  have eol: "first_match Eol ?s5 = Some ?s5"
    by (simp add: first_match_def)
  have bol: "first_match Bol ?s0 = Some ?s0"
    by (simp add: first_match_def)
  have "first_match versionRegex ?s0 = Some ?s5"
    unfolding versionRegex_def
    by (rule seq_first [OF bol seq_first [OF major seq_first [OF second seq_first [OF third eol]]]])
  from exec_first [OF this] show ?thesis by simp
qed


lemma digit_facts:
  "\<forall>d\<in>set ''0123456789''. digitValue d < 10 \<and> digitChar (digitValue d) = d"
  by code_simp

lemma nonzero_digit_facts:
  "\<forall>d\<in>set ''123456789''. 0 < digitValue d \<and> isDigit d"
  by code_simp

lemma decimal_value_ge: "n \<le> foldl (\<lambda>n c. 10 * n + digitValue c) n cs"
proof (induction cs arbitrary: n)
  case Nil
  show ?case by simp
next
  case (Cons c cs)
  have "n \<le> 10 * n + digitValue c" by simp
  also have "\<dots> \<le> foldl (\<lambda>n c. 10 * n + digitValue c) (10 * n + digitValue c) cs"
    by (rule Cons.IH)
  finally show ?case by simp
qed

lemma canonical_cases:
  assumes "canonical_numeral x"
  obtains "x = ''0''" | c cs where "x = c # cs" and "c \<in> set ''123456789''" and "list_all isDigit cs"
  using assms unfolding canonical_numeral_def by (cases x) auto

lemma canonical_digits:
  assumes "canonical_numeral x"
  shows "list_all isDigit x"
  using assms
proof (cases rule: canonical_cases)
  case 1
  then show ?thesis by (simp add: isDigit_def)
next
  case (2 c cs)
  from 2(2) have "isDigit c" using nonzero_digit_facts by blast
  with 2 show ?thesis by simp
qed

lemma parseInt_canonical:
  "canonical_numeral x \<Longrightarrow> parseInt x = toDouble (decimal_value x)"
proof -
  assume "canonical_numeral x"
  then have "\<forall>c\<in>set x. isDigit c"
    using canonical_digits [of x] by (simp add: list_all_iff)
  then have "takeWhile isDigit x = x"
    by simp
  then show ?thesis by (simp only: parseInt_def)
qed

lemma decimal_digits:
  assumes "list_all isDigit cs" and "c \<in> set ''123456789''"
  shows "decimal (decimal_value (c # cs)) = c # cs"
  using assms(1)
proof (induction cs rule: rev_induct)
  case Nil
  have "c \<in> set ''0123456789''" using assms(2) by auto
  then have "digitValue c < 10" "digitChar (digitValue c) = c"
    using digit_facts by blast+
  then show ?case
    by (simp add: decimal_value_def decimal.simps [of "digitValue c"])
next
  case (snoc d ds)
  let ?n = "decimal_value (c # ds)"
  from snoc.prems have ds: "list_all isDigit ds" and "isDigit d"
    by simp_all
  then have d: "d \<in> set ''0123456789''"
    by (simp add: isDigit_def)
  from d have dv: "digitValue d < 10" "digitChar (digitValue d) = d"
    using digit_facts by blast+
  have "0 < digitValue c" using assms(2) nonzero_digit_facts by blast
  also have "digitValue c \<le> ?n"
    using decimal_value_ge [of "digitValue c" ds] by (simp add: decimal_value_def)
  finally have pos: "0 < ?n" .
  have "decimal_value (c # ds @ [d]) = 10 * ?n + digitValue d"
    by (simp add: decimal_value_def)
  moreover have "decimal (10 * ?n + digitValue d) = decimal ?n @ [d]"
    using pos dv by (subst decimal.simps) simp
  ultimately show ?case
    using snoc.IH [OF ds] by simp
qed

lemma decimal_decimal_value:
  assumes "canonical_numeral x"
  shows "decimal (decimal_value x) = x"
  using assms
proof (cases rule: canonical_cases)
  case 1
  have "decimal (decimal_value ''0'') = ''0''" by code_simp
  with 1 show ?thesis by simp
next
  case (2 c cs)
  from decimal_digits [OF 2(3) 2(2)] 2(1) show ?thesis by simp
qed

lemma toDouble_large:
  assumes "9007199254740992 \<le> m" and "n < 9007199254740992"
  shows "toDouble m \<noteq> enat n"
proof -
  define e where "e = bit_length m - 53"
  define q where "q = m div 2 ^ e"
  define M where
    "M = (if 2 ^ (e - 1) < m mod 2 ^ e \<or> (m mod 2 ^ e = 2 ^ (e - 1) \<and> odd q) then q + 1 else q) * 2 ^ e"
  have "\<not> bit_length m \<le> 53"
    using assms(1) by (simp add: bit_length_bounds)
  then have e: "bit_length m = Suc (52 + e)" "0 < e"
    by (simp_all add: e_def)
  have "\<not> bit_length m \<le> 52 + e"
    using e(1) by simp
  then have "2 ^ (52 + e) \<le> m"
    by (simp add: bit_length_bounds)
  then have "(2 ^ 52 * 2 ^ e) div 2 ^ e \<le> m div 2 ^ e"
    by (intro div_le_mono) (simp add: power_add)
  then have q: "2 ^ 52 \<le> q"
    by (simp add: q_def)
  have "(2::nat) ^ 1 \<le> 2 ^ e"
    using e(2) by (intro power_increasing) simp_all
  then have "(2::nat) ^ 52 * 2 \<le> q * 2 ^ e"
    using q by (intro mult_le_mono) simp_all
  also have "q * 2 ^ e \<le> M"
    by (simp add: M_def)
  finally have "9007199254740992 \<le> M"
    by simp
  then have "(if 1024 < bit_length M then \<infinity> else enat M) \<noteq> enat n"
    using assms(2) by simp
  moreover have "toDouble m = (if 1024 < bit_length M then \<infinity> else enat M)"
    using assms(1) by (simp add: toDouble_def Let_def M_def q_def e_def)
  ultimately show ?thesis by simp
qed

lemma shortest_decimal_exact:
  assumes "n < 9007199254740992"
  shows "shortest_decimal n k = n"
proof (induction k)
  case 0
  show ?case by simp
next
  case (Suc k)
  let ?u = "10 ^ Suc k :: nat"
  let ?lo = "(n div ?u) * ?u"
  let ?hi = "?lo + ?u"
  have lo: "?lo \<le> n" by simp
  from lo assms have "?lo < 9007199254740992"
    by (rule le_less_trans)
  then have "toDouble ?lo = enat ?lo"
    by (rule toDouble_exact)
  then have at_lo: "toDouble ?lo = enat n \<longleftrightarrow> ?lo = n"
    by simp
  have "n mod ?u < ?u" by simp
  then have hi: "n < ?hi"
    using div_mult_mod_eq [of n ?u] by linarith
  have at_hi: "toDouble ?hi \<noteq> enat n"
  proof (cases "?hi < 9007199254740992")
    case True
    then have "toDouble ?hi = enat ?hi" by (rule toDouble_exact)
    with hi show ?thesis by simp
  next
    case False
    then show ?thesis
      using assms by (intro toDouble_large) simp_all
  qed
  show ?case
    using at_lo at_hi Suc.IH by (simp add: Let_def del: power_Suc)
qed

lemma numberToString_exact:
  assumes "n < 9007199254740992"
  shows "numberToString (enat n) = decimal n"
  using assms by (simp add: numberToString_def shortest_decimal_exact)

lemma numberToString_parseInt:
  assumes "canonical_numeral x" and "decimal_value x < 2 ^ 53"
  shows "numberToString (parseInt x) = x"
proof -
  from assms(2) have small: "decimal_value x < 9007199254740992"
    by simp
  then have "parseInt x = enat (decimal_value x)"
    by (simp add: parseInt_canonical [OF assms(1)] toDouble_exact)
  then show ?thesis
    by (simp add: numberToString_exact [OF small] decimal_decimal_value [OF assms(1)])
qed

lemma canonical_trim:
  assumes "canonical_numeral x"
  shows "\<forall>c\<in>set x. \<not> isWhiteSpace c"
proof -
  have "\<forall>d\<in>set ''0123456789''. \<not> isWhiteSpace d" by code_simp
  moreover have "\<forall>c\<in>set x. c \<in> set ''0123456789''"
    using canonical_digits [OF assms] by (simp add: list_all_iff isDigit_def)
  ultimately show ?thesis by blast
qed

lemma Version_from_canonical:
  assumes x: "canonical_numeral x" and y: "canonical_numeral y" and z: "canonical_numeral z"
    and sep: "sep = CHR ''.'' \<or> sep = CHR ''-''"
  shows "trim input = x \<Longrightarrow>
           Version_from input = Some \<lparr>major = parseInt x, minor = 0, patch = 0\<rparr>"
    and "trim input = x @ sep # y \<Longrightarrow>
           Version_from input = Some \<lparr>major = parseInt x, minor = parseInt y, patch = 0\<rparr>"
    and "trim input = x @ sep # y @ sep # z \<Longrightarrow>
           Version_from input = Some \<lparr>major = parseInt x, minor = parseInt y, patch = parseInt z\<rparr>"
    and "decimal_value x < 2 ^ 53 \<Longrightarrow> decimal_value y < 2 ^ 53 \<Longrightarrow> decimal_value z < 2 ^ 53 \<Longrightarrow>
           Version_toString \<lparr>major = parseInt x, minor = parseInt y, patch = parseInt z\<rparr>
             = x @ ''.'' @ y @ ''.'' @ z"
    and "decimal_value x < 2 ^ 53 \<Longrightarrow> decimal_value y < 2 ^ 53 \<Longrightarrow>
           Version_toString \<lparr>major = parseInt x, minor = parseInt y, patch = 0\<rparr>
             = x @ ''.'' @ y @ ''.0''"
    and "decimal_value x < 2 ^ 53 \<Longrightarrow>
           Version_toString \<lparr>major = parseInt x, minor = 0, patch = 0\<rparr> = x @ ''.0.0''"
proof -
  have zero: "numberToString 0 = ''0''" by code_simp
  show "trim input = x \<Longrightarrow>
           Version_from input = Some \<lparr>major = parseInt x, minor = 0, patch = 0\<rparr>"
    by (simp add: Version_from_def version_major_only [OF x] group_number_def)
  show "trim input = x @ sep # y \<Longrightarrow>
           Version_from input = Some \<lparr>major = parseInt x, minor = parseInt y, patch = 0\<rparr>"
    by (simp add: Version_from_def version_major_minor [OF x y sep] group_number_def)
  show "trim input = x @ sep # y @ sep # z \<Longrightarrow>
           Version_from input = Some \<lparr>major = parseInt x, minor = parseInt y, patch = parseInt z\<rparr>"
    by (simp add: Version_from_def version_major_minor_patch [OF x y z sep] group_number_def)
  show "decimal_value x < 2 ^ 53 \<Longrightarrow> decimal_value y < 2 ^ 53 \<Longrightarrow> decimal_value z < 2 ^ 53 \<Longrightarrow>
           Version_toString \<lparr>major = parseInt x, minor = parseInt y, patch = parseInt z\<rparr>
             = x @ ''.'' @ y @ ''.'' @ z"
    by (simp add: Version_toString_def numberToString_parseInt x y z)
  show "decimal_value x < 2 ^ 53 \<Longrightarrow> decimal_value y < 2 ^ 53 \<Longrightarrow>
           Version_toString \<lparr>major = parseInt x, minor = parseInt y, patch = 0\<rparr>
             = x @ ''.'' @ y @ ''.0''"
    by (simp add: Version_toString_def numberToString_parseInt x y zero)
  show "decimal_value x < 2 ^ 53 \<Longrightarrow>
           Version_toString \<lparr>major = parseInt x, minor = 0, patch = 0\<rparr> = x @ ''.0.0''"
    by (simp add: Version_toString_def numberToString_parseInt x zero)
qed

lemma versionRegex_not_at_start:
  "exec_from versionRegex (Suc i) s = None"
  by (induction s arbitrary: i) (simp_all add: versionRegex_def)

lemma Version_from_codename:
  assumes "trim input = [] \<or> (\<exists>c r. trim input = c # r \<and> \<not> isDigit c)"
  shows "Version_from input = None"
proof -
  have nd: "no_digit_next (trim input)"
    using assms by (auto simp: no_digit_next_def)
  then have "matches (Group ''Major'' numeral_pattern) \<lparr>pos = 0, rest = trim input, groups = []\<rparr> = []"
    by (simp add: numeral_fail)
  then have none: "matches versionRegex \<lparr>pos = 0, rest = trim input, groups = []\<rparr> = []"
    by (simp add: versionRegex_def del: matches.simps(5,6))
  have "exec_from versionRegex 0 (trim input) = None"
    by (subst exec_from.simps)
      (simp add: none versionRegex_not_at_start del: exec_from.simps split: list.splits)
  then have "exec versionRegex (trim input) = None"
    by (simp add: exec_def)
  then show ?thesis
    by (simp add: Version_from_def)
qed

section \<open>Properties of CaseInsensitiveStringMap\<close>

lemma exec_from_Chars:
  "exec_from (Chars cs) i s =
     (if list_ex (\<lambda>c. c \<in> set cs) s
      then Some (i + length (takeWhile (\<lambda>c. c \<notin> set cs) s), [])
      else None)"
  by (induction s arbitrary: i) (simp_all add: advance_def)

lemma isSeparator_set: "isSeparator c \<longleftrightarrow> c \<in> set '':=''"
  by (auto simp: isSeparator_def)

lemma take_takeWhile_length: "take (length (takeWhile P xs)) xs = takeWhile P xs"
  by (induction xs) simp_all

lemma drop_takeWhile_length: "drop (Suc (length (takeWhile P xs))) xs = tl (dropWhile P xs)"
  by (induction xs) simp_all

lemma fromString_line_entry:
  "fromString_line m line =
     (case line_entry line of
        None \<Rightarrow> m
      | Some (key, v) \<Rightarrow> CaseInsensitiveStringMap_set m key v)"
proof -
  have sep: "(\<lambda>c. c \<in> set '':='') = isSeparator" "(\<lambda>c. c \<notin> set '':='') = (\<lambda>c. \<not> isSeparator c)"
    by (auto simp: isSeparator_def)
  show ?thesis
    unfolding fromString_line_def line_entry_def exec_def exec_from_Chars sep
    by (simp add: take_takeWhile_length drop_takeWhile_length Let_def)
qed

lemma map_of_foldl_fromString_line:
  "map_of (foldl fromString_line m ls) =
     map_of (rev (List.map_filter
        (\<lambda>line. map_option (\<lambda>(key, v). (toLowerCase key, v)) (line_entry line)) ls) @ m)"
proof (induction ls arbitrary: m)
  case Nil
  then show ?case by simp
next
  case (Cons l ls)
  show ?case
  proof (cases "line_entry l")
    case None
    then show ?thesis
      using Cons.IH [of m] by (simp add: fromString_line_entry)
  next
    case (Some e)
    obtain key v where e: "e = (key, v)" by (cases e)
    have "map_of (foldl fromString_line m (l # ls)) =
          map_of (foldl fromString_line (CaseInsensitiveStringMap_set m key v) ls)"
      using Some e by (simp add: fromString_line_entry)
    also have "\<dots> = map_of (rev (List.map_filter
        (\<lambda>line. map_option (\<lambda>(key, v). (toLowerCase key, v)) (line_entry line)) ls)
          @ CaseInsensitiveStringMap_set m key v)"
      by (rule Cons.IH)
    also have "\<dots> = map_of (rev (List.map_filter
        (\<lambda>line. map_option (\<lambda>(key, v). (toLowerCase key, v)) (line_entry line)) ls)
          @ (toLowerCase key, v) # m)"
      by (simp add: CaseInsensitiveStringMap_set_def AList.update_conv')
    finally show ?thesis
      using Some e by simp
  qed
qed

lemma get_fromString:
  "CaseInsensitiveStringMap_get (fromString input) k = map_of (stored_entries input) (toLowerCase k)"
  by (simp add: CaseInsensitiveStringMap_get_def fromString_def stored_entries_def
      map_of_foldl_fromString_line)

text \<open>
  C5. \<open>CaseInsensitiveStringMap.fromString\<close> splits the text into lines, takes the
  first \<open>:\<close> or \<open>=\<close> of a line as the separator of key and value, trims both, skips
  the lines that have neither character, and stores the keys in lower case, so that an
  entry is found under every casing of its key: looking a key up gives the value of the
  last line whose key is the same up to case. The text
  \<open>Foo: bar\<newline>BAZ=qux\<newline>malformed-line\<close> gives two entries, and \<open>foo\<close> and
  \<open>FOO\<close> both find \<open>bar\<close>.
\<close>

theorem fromString_entries:
  "(\<forall>k. CaseInsensitiveStringMap_get (fromString input) k =
          map_of (stored_entries input) (toLowerCase k))
   \<and> (\<forall>k k'. toLowerCase k = toLowerCase k' \<longrightarrow>
          CaseInsensitiveStringMap_get (fromString input) k =
          CaseInsensitiveStringMap_get (fromString input) k')
   \<and> (\<forall>line key v k. line \<in> set (split_lines input) \<longrightarrow> line_entry line = Some (key, v) \<longrightarrow>
          toLowerCase k = toLowerCase key \<longrightarrow> CaseInsensitiveStringMap_has (fromString input) k)
   \<and> fromString ''Foo: bar\<newline>BAZ=qux\<newline>malformed-line'' = [(''foo'', ''bar''), (''baz'', ''qux'')]
   \<and> CaseInsensitiveStringMap_get (fromString ''Foo: bar\<newline>BAZ=qux\<newline>malformed-line'') ''foo''
        = Some ''bar''
   \<and> CaseInsensitiveStringMap_get (fromString ''Foo: bar\<newline>BAZ=qux\<newline>malformed-line'') ''FOO''
        = Some ''bar''"
proof (intro conjI allI impI)
  fix k
  show "CaseInsensitiveStringMap_get (fromString input) k =
          map_of (stored_entries input) (toLowerCase k)"
    by (rule get_fromString)
next
  fix k k' :: string
  assume "toLowerCase k = toLowerCase k'"
  then show "CaseInsensitiveStringMap_get (fromString input) k =
          CaseInsensitiveStringMap_get (fromString input) k'"
    by (simp add: CaseInsensitiveStringMap_get_def)
next
  fix line key v k
  assume line: "line \<in> set (split_lines input)" and entry: "line_entry line = Some (key, v)"
    and k: "toLowerCase k = toLowerCase key"
  have "(toLowerCase key, v) \<in> set (stored_entries input)"
    using line entry by (force simp: stored_entries_def List.map_filter_def)
  then have "toLowerCase key \<in> fst ` set (stored_entries input)"
    by force
  then have "map_of (stored_entries input) (toLowerCase key) \<noteq> None"
    by (simp add: map_of_eq_None_iff)
  then show "CaseInsensitiveStringMap_has (fromString input) k"
    using get_fromString [of input k] k
    by (simp add: CaseInsensitiveStringMap_has_def CaseInsensitiveStringMap_get_def)
next
  show "fromString ''Foo: bar\<newline>BAZ=qux\<newline>malformed-line'' = [(''foo'', ''bar''), (''baz'', ''qux'')]"
    by code_simp
next
  show "CaseInsensitiveStringMap_get (fromString ''Foo: bar\<newline>BAZ=qux\<newline>malformed-line'') ''foo''
        = Some ''bar''"
    by code_simp
next
  show "CaseInsensitiveStringMap_get (fromString ''Foo: bar\<newline>BAZ=qux\<newline>malformed-line'') ''FOO''
        = Some ''bar''"
    by code_simp
qed

theorem fromString_entries_witness:
  "toLowerCase ''SDK.Version'' = toLowerCase ''sdk.version''
   \<and> CaseInsensitiveStringMap_get (fromString ''Sdk.Version = 33\<newline>sdk.version: 34 '') ''SDK.Version''
        = Some ''34''
   \<and> CaseInsensitiveStringMap_get (fromString ''Sdk.Version = 33\<newline>sdk.version: 34 '') ''sdk.version''
        = Some ''34''"
proof -
  have same: "toLowerCase ''SDK.Version'' = toLowerCase ''sdk.version''"
    by code_simp
  have entries: "map_of (stored_entries ''Sdk.Version = 33\<newline>sdk.version: 34 '')
                   (toLowerCase ''SDK.Version'') = Some ''34''"
    by code_simp
  from fromString_entries [of "''Sdk.Version = 33\<newline>sdk.version: 34 ''"] entries
  have upper: "CaseInsensitiveStringMap_get (fromString ''Sdk.Version = 33\<newline>sdk.version: 34 '')
                 ''SDK.Version'' = Some ''34''"
    by simp
  from fromString_entries [of "''Sdk.Version = 33\<newline>sdk.version: 34 ''"] same
  have "CaseInsensitiveStringMap_get (fromString ''Sdk.Version = 33\<newline>sdk.version: 34 '')
          ''SDK.Version'' =
        CaseInsensitiveStringMap_get (fromString ''Sdk.Version = 33\<newline>sdk.version: 34 '')
          ''sdk.version''"
    by blast
  with upper same show ?thesis by simp
qed

section \<open>Properties of AndroidDevice\<close>

text \<open>
  C6. For a certificate whose legacy subject hash can be computed, \<open>isCertInstalled\<close>
  never raises. Its result is true exactly when the root escalation and the listing of
  the trust directory both succeed and the output of the listing contains the text made
  of the subject hash and \<open>.0\<close> (anywhere in it); when either step fails the error is
  logged, not passed on, and the result is false.
\<close>

theorem isCertInstalled_best_effort:
  assumes "getSubjectHashOld h certData = Inr subjectHash"
  shows \<open>(\<exists>b tr'. isCertInstalled h certData d tr = (Inr b, tr'))
   \<and> (fst (isCertInstalled h certData d tr) = Inr True \<longleftrightarrow>
        (\<exists>out listing.
           adbCommand_result h tr ''root'' (port d) = Inr out
           \<and> adbCommand_result h (tr @ [AdbCommand ''root'' (port d)])
                 ''shell "ls /data/misc/user/0/cacerts-added"'' (port d) = Inr listing
           \<and> sublist (subjectHash @ ''.0'') listing))
   \<and> (\<forall>e. adbCommand_result h tr ''root'' (port d) = Inl e \<longrightarrow>
          isCertInstalled h certData d tr =
            (Inr False, logger_warn d e (tr @ [AdbCommand ''root'' (port d)])))
   \<and> (\<forall>e out. adbCommand_result h tr ''root'' (port d) = Inr out \<longrightarrow>
          adbCommand_result h (tr @ [AdbCommand ''root'' (port d)])
                 ''shell "ls /data/misc/user/0/cacerts-added"'' (port d) = Inl e \<longrightarrow>
          isCertInstalled h certData d tr =
            (Inr False,
             logger_warn d e (tr @ [AdbCommand ''root'' (port d),
                AdbCommand ''shell "ls /data/misc/user/0/cacerts-added"'' (port d)])))\<close>
  using assms
  by (auto simp: isCertInstalled_def executeAdbCommand_def certFileName_def Let_def
      split: sum.splits)

theorem isCertInstalled_best_effort_witness:
  "getSubjectHashOld (example_platform (\<lambda>command. Inl (Error ''adb: unknown command'')))
      \<lparr>derCertificate = [48], pemCertificate = None\<rparr> = Inr ''9a5ba575''
   \<and> isCertInstalled (example_platform (\<lambda>command. Inl (Error ''adb: unknown command'')))
      \<lparr>derCertificate = [48], pemCertificate = None\<rparr> (example_device False) []
     = (Inr False, [AdbCommand ''root'' (- 1), LoggerWarn (Error ''adb: unknown command'')])
   \<and> fst (isCertInstalled (example_platform (\<lambda>command. Inr ''9a5ba575.0''))
      \<lparr>derCertificate = [48], pemCertificate = None\<rparr> (example_device False) []) = Inr True"
proof -
  let ?h = "example_platform (\<lambda>command. Inl (Error ''adb: unknown command''))"
  let ?h' = "example_platform (\<lambda>command. Inr ''9a5ba575.0'')"
  let ?c = "\<lparr>derCertificate = [48], pemCertificate = None\<rparr>"
  have hash: "getSubjectHashOld ?h ?c = Inr ''9a5ba575''"
    by (simp add: example_platform_def)
  have hash': "getSubjectHashOld ?h' ?c = Inr ''9a5ba575''"
    by (simp add: example_platform_def)
  have root: "adbCommand_result ?h [] ''root'' (port (example_device False))
                = Inl (Error ''adb: unknown command'')"
    by (simp add: example_platform_def)
  from isCertInstalled_best_effort [OF hash, of "example_device False" "[]"] root
  have "isCertInstalled ?h ?c (example_device False) []
        = (Inr False, logger_warn (example_device False) (Error ''adb: unknown command'')
                        ([] @ [AdbCommand ''root'' (port (example_device False))]))"
    by blast
  then have first: "isCertInstalled ?h ?c (example_device False) []
     = (Inr False, [AdbCommand ''root'' (- 1), LoggerWarn (Error ''adb: unknown command'')])"
    by (simp add: logger_warn_def example_device_def AndroidDevice_new_def)
  have adb: "\<And>tr command p. adbCommand_result ?h' tr command p = Inr ''9a5ba575.0''"
    by (simp add: example_platform_def)
  have "sublist (''9a5ba575'' @ ''.0'') ''9a5ba575.0''"
    by simp
  with isCertInstalled_best_effort [OF hash', of "example_device False" "[]"] adb
  have second: "fst (isCertInstalled ?h' ?c (example_device False) []) = Inr True"
    by blast
  from hash first second show ?thesis by blast
qed

text \<open>
  Two cases that the statement above leaves out. The subject hash is computed before
  the \<^verbatim>\<open>try\<close> block, so an error in computing it is the error of the method: a
  certificate with no bytes cannot be read. And the test on the listing is a test for a
  part of the text: a listing of the one file \<open>19a5ba575.0\<close> has no file named
  \<open>9a5ba575.0\<close> and gives true.
\<close>

theorem isCertInstalled_raises_and_substring:
  "isCertInstalled (example_platform Inr) \<lparr>derCertificate = [], pemCertificate = None\<rparr>
      (example_device False) []
     = (Inl (Error ''Too few bytes to parse DER.''), [])
   \<and> fst (isCertInstalled (example_platform (\<lambda>command. Inr ''19a5ba575.0''))
           \<lparr>derCertificate = [48], pemCertificate = None\<rparr> (example_device False) [])
     = Inr True
   \<and> ''9a5ba575.0'' \<notin> set (split_lines ''19a5ba575.0'')"
proof (intro conjI)
  show "isCertInstalled (example_platform Inr) \<lparr>derCertificate = [], pemCertificate = None\<rparr>
      (example_device False) []
     = (Inl (Error ''Too few bytes to parse DER.''), [])"
    by (simp add: isCertInstalled_def example_platform_def)
  show "fst (isCertInstalled (example_platform (\<lambda>command. Inr ''19a5ba575.0''))
           \<lparr>derCertificate = [48], pemCertificate = None\<rparr> (example_device False) [])
     = Inr True"
    by (simp add: isCertInstalled_def example_platform_def executeAdbCommand_def
        certFileName_def sublist_Cons_right)
  show "''9a5ba575.0'' \<notin> set (split_lines ''19a5ba575.0'')"
    by code_simp
qed

lemma perform_in_order_all:
  "(\<forall>i<length cs. call_error h (tr @ take i cs) (cs ! i) = None) \<Longrightarrow>
   perform_in_order h tr cs = (Inr (), tr @ cs)"
proof (induction cs arbitrary: tr)
  case Nil
  show ?case by simp
next
  case (Cons c cs)
  from Cons.prems have first: "call_error h tr c = None"
    by (auto dest: spec [of _ 0])
  have "\<forall>i<length cs. call_error h ((tr @ [c]) @ take i cs) (cs ! i) = None"
  proof (intro allI impI)
    fix i assume "i < length cs"
    then have "call_error h (tr @ take (Suc i) (c # cs)) ((c # cs) ! Suc i) = None"
      using Cons.prems by (metis Suc_less_eq length_Cons)
    then show "call_error h ((tr @ [c]) @ take i cs) (cs ! i) = None"
      by simp
  qed
  from Cons.IH [OF this] first show ?case by simp
qed

lemma perform_in_order_fails:
  "i < length cs \<Longrightarrow> (\<forall>j<i. call_error h (tr @ take j cs) (cs ! j) = None) \<Longrightarrow>
   call_error h (tr @ take i cs) (cs ! i) = Some e \<Longrightarrow>
   perform_in_order h tr cs = (Inl e, tr @ take (Suc i) cs)"
proof (induction cs arbitrary: tr i)
  case Nil
  then show ?case by simp
next
  case (Cons c cs)
  show ?case
  proof (cases i)
    case 0
    with Cons.prems show ?thesis by simp
  next
    case (Suc k)
    from Cons.prems(2) Suc have first: "call_error h tr c = None"
      by (auto dest: spec [of _ 0])
    have k: "k < length cs" using Cons.prems(1) Suc by simp
    have before: "\<forall>j<k. call_error h ((tr @ [c]) @ take j cs) (cs ! j) = None"
    proof (intro allI impI)
      fix j assume "j < k"
      then have "call_error h (tr @ take (Suc j) (c # cs)) ((c # cs) ! Suc j) = None"
        using Cons.prems(2) Suc by (metis Suc_less_eq)
      then show "call_error h ((tr @ [c]) @ take j cs) (cs ! j) = None"
        by simp
    qed
    have at: "call_error h ((tr @ [c]) @ take k cs) (cs ! k) = Some e"
      using Cons.prems(3) Suc by simp
    from Cons.IH [OF k before at] first Suc show ?thesis by simp
  qed
qed

lemma installCert_perform:
  assumes "getSubjectHashOld h certData = Inr subjectHash"
    and "pemContent_of h certData = Inr pemContent"
  shows "installCert h certData d tr
           = perform_in_order h tr (installCert_steps h subjectHash pemContent d)"
  using assms
  by (simp add: installCert_def installCert_steps_def certFileName_def Let_def call_error_def
      writeFileSync_def mountAsRootWritableSystem_def executeAdbCommand_def
      split: sum.splits option.splits)

text \<open>
  C7. \<open>installCert\<close> writes the certificate in PEM form (the cached PEM text if there
  is one, the conversion of the DER bytes otherwise) to the file named by the legacy
  subject hash and \<open>.0\<close> in the temporary directory of the host, remounts the system of
  the device as root-writable, pushes the file into the trust directory of the device
  under the same name and sets its mode to 644, in this order. The first step that fails
  ends the method, and its error is the error of the method; so is an error in computing
  the subject hash or in converting the DER bytes, before the first step.
\<close>

theorem installCert_steps_in_order:
  "(\<forall>e. getSubjectHashOld h certData = Inl e \<longrightarrow> installCert h certData d tr = (Inl e, tr))
   \<and> (\<forall>subjectHash e. getSubjectHashOld h certData = Inr subjectHash \<longrightarrow>
         pemContent_of h certData = Inl e \<longrightarrow> installCert h certData d tr = (Inl e, tr))
   \<and> (\<forall>pem. pemCertificate certData = Some pem \<longrightarrow> pemContent_of h certData = Inr pem)
   \<and> (pemCertificate certData = None \<longrightarrow>
         pemContent_of h certData = derToPem h (derCertificate certData))
   \<and> (\<forall>subjectHash pemContent.
         getSubjectHashOld h certData = Inr subjectHash \<longrightarrow>
         pemContent_of h certData = Inr pemContent \<longrightarrow>
         installCert h certData d tr
           = perform_in_order h tr (installCert_steps h subjectHash pemContent d)
         \<and> ((\<forall>i<4. call_error h (tr @ take i (installCert_steps h subjectHash pemContent d))
                       (installCert_steps h subjectHash pemContent d ! i) = None) \<longrightarrow>
              installCert h certData d tr
                = (Inr (), tr @ installCert_steps h subjectHash pemContent d))
         \<and> (\<forall>i e. i < 4 \<longrightarrow>
              (\<forall>j<i. call_error h (tr @ take j (installCert_steps h subjectHash pemContent d))
                        (installCert_steps h subjectHash pemContent d ! j) = None) \<longrightarrow>
              call_error h (tr @ take i (installCert_steps h subjectHash pemContent d))
                 (installCert_steps h subjectHash pemContent d ! i) = Some e \<longrightarrow>
              installCert h certData d tr
                = (Inl e, tr @ take (Suc i) (installCert_steps h subjectHash pemContent d))))"
proof (intro conjI allI impI)
  fix e
  assume "getSubjectHashOld h certData = Inl e"
  then show "installCert h certData d tr = (Inl e, tr)"
    by (simp add: installCert_def)
next
  fix subjectHash e
  assume "getSubjectHashOld h certData = Inr subjectHash" and "pemContent_of h certData = Inl e"
  then show "installCert h certData d tr = (Inl e, tr)"
    by (simp add: installCert_def)
next
  fix pem
  assume "pemCertificate certData = Some pem"
  then show "pemContent_of h certData = Inr pem"
    by (simp add: pemContent_of_def)
next
  assume "pemCertificate certData = None"
  then show "pemContent_of h certData = derToPem h (derCertificate certData)"
    by (simp add: pemContent_of_def)
next
  fix subjectHash pemContent
  assume ok: "getSubjectHashOld h certData = Inr subjectHash"
    "pemContent_of h certData = Inr pemContent"
  show "installCert h certData d tr
          = perform_in_order h tr (installCert_steps h subjectHash pemContent d)"
    by (rule installCert_perform [OF ok])
  have len: "length (installCert_steps h subjectHash pemContent d) = 4"
    by (simp add: installCert_steps_def)
  {
    assume "\<forall>i<4. call_error h (tr @ take i (installCert_steps h subjectHash pemContent d))
                       (installCert_steps h subjectHash pemContent d ! i) = None"
    then show "installCert h certData d tr
                = (Inr (), tr @ installCert_steps h subjectHash pemContent d)"
      using perform_in_order_all [of "installCert_steps h subjectHash pemContent d" h tr]
      by (simp add: installCert_perform [OF ok] len)
  }
  {
    fix i e
    assume "i < 4"
      and "\<forall>j<i. call_error h (tr @ take j (installCert_steps h subjectHash pemContent d))
                        (installCert_steps h subjectHash pemContent d ! j) = None"
      and "call_error h (tr @ take i (installCert_steps h subjectHash pemContent d))
                 (installCert_steps h subjectHash pemContent d ! i) = Some e"
    then show "installCert h certData d tr
                = (Inl e, tr @ take (Suc i) (installCert_steps h subjectHash pemContent d))"
      using perform_in_order_fails [of i "installCert_steps h subjectHash pemContent d" h tr e]
      by (simp add: installCert_perform [OF ok] len)
  }
qed

theorem installCert_steps_in_order_witness:
  "installCert (example_platform Inr) \<lparr>derCertificate = [48], pemCertificate = None\<rparr>
      (example_device False) []
     = (Inr (),
        [WriteFileSync ''/tmp/9a5ba575.0'' ''PEM from DER'',
         MountAsRootWritableSystem ''Pixel_5_API_33'',
         AdbCommand ''push /tmp/9a5ba575.0 /data/misc/user/0/cacerts-added/9a5ba575.0'' (- 1),
         AdbCommand (''shell '' @ [CHR 0x22] @ ''su 0 chmod 644 /data/misc/user/0/cacerts-added/9a5ba575.0''
                       @ [CHR 0x22]) (- 1)])
   \<and> installCert (example_platform Inr\<lparr>mountAsRootWritableSystem_result := \<lambda>tr i. Inl (Error ''remount failed'')\<rparr>)
        \<lparr>derCertificate = [48], pemCertificate = Some ''-----BEGIN CERTIFICATE-----''\<rparr>
        (example_device False) []
     = (Inl (Error ''remount failed''),
        [WriteFileSync ''/tmp/9a5ba575.0'' ''-----BEGIN CERTIFICATE-----'',
         MountAsRootWritableSystem ''Pixel_5_API_33''])
   \<and> installCert (example_platform Inr) \<lparr>derCertificate = [], pemCertificate = None\<rparr>
        (example_device False) []
     = (Inl (Error ''Too few bytes to parse DER.''), [])"
proof -
  let ?h = "example_platform Inr"
  let ?c = "\<lparr>derCertificate = [48], pemCertificate = None\<rparr>"
  let ?h' = "example_platform Inr\<lparr>mountAsRootWritableSystem_result := \<lambda>tr i. Inl (Error ''remount failed'')\<rparr>"
  let ?c' = "\<lparr>derCertificate = [48], pemCertificate = Some ''-----BEGIN CERTIFICATE-----''\<rparr>"
  let ?none = "\<lparr>derCertificate = [], pemCertificate = None\<rparr>"
  let ?d = "example_device False"
  let ?steps = "installCert_steps ?h ''9a5ba575'' ''PEM from DER'' ?d"
  let ?steps' = "installCert_steps ?h' ''9a5ba575'' ''-----BEGIN CERTIFICATE-----'' ?d"
  have hash: "getSubjectHashOld ?h ?c = Inr ''9a5ba575''"
    by (simp add: example_platform_def)
  have pem: "pemContent_of ?h ?c = Inr ''PEM from DER''"
    by (simp add: example_platform_def pemContent_of_def)
  have hash': "getSubjectHashOld ?h' ?c' = Inr ''9a5ba575''"
    by (simp add: example_platform_def)
  have pem': "pemContent_of ?h' ?c' = Inr ''-----BEGIN CERTIFICATE-----''"
    by (simp add: pemContent_of_def)
  have hash0: "getSubjectHashOld ?h ?none = Inl (Error ''Too few bytes to parse DER.'')"
    by (simp add: example_platform_def)
  have steps: "?steps =
        [WriteFileSync ''/tmp/9a5ba575.0'' ''PEM from DER'',
         MountAsRootWritableSystem ''Pixel_5_API_33'',
         AdbCommand ''push /tmp/9a5ba575.0 /data/misc/user/0/cacerts-added/9a5ba575.0'' (- 1),
         AdbCommand (''shell '' @ [CHR 0x22] @ ''su 0 chmod 644 /data/misc/user/0/cacerts-added/9a5ba575.0''
                       @ [CHR 0x22]) (- 1)]"
    by (simp add: installCert_steps_def example_platform_def example_device_def
        AndroidDevice_new_def)
  have res: "\<And>tr f c. writeFileSync_result ?h tr f c = Inr ()"
    "\<And>tr i. mountAsRootWritableSystem_result ?h tr i = Inr ()"
    "\<And>tr c p. adbCommand_result ?h tr c p = Inr c"
    by (simp_all add: example_platform_def)
  have ok: "\<forall>i<4. call_error ?h ([] @ take i ?steps) (?steps ! i) = None"
  proof (intro allI impI)
    fix i :: nat
    assume "i < 4"
    then consider "i = 0" | "i = 1" | "i = 2" | "i = 3"
      by linarith
    then show "call_error ?h ([] @ take i ?steps) (?steps ! i) = None"
      by cases (simp_all add: steps call_error_def res)
  qed
  from installCert_steps_in_order [of ?h ?c ?d "[]"] hash pem ok
  have "installCert ?h ?c ?d [] = (Inr (), [] @ ?steps)"
    by blast
  then have first: "installCert ?h ?c ?d [] =
      (Inr (),
        [WriteFileSync ''/tmp/9a5ba575.0'' ''PEM from DER'',
         MountAsRootWritableSystem ''Pixel_5_API_33'',
         AdbCommand ''push /tmp/9a5ba575.0 /data/misc/user/0/cacerts-added/9a5ba575.0'' (- 1),
         AdbCommand (''shell '' @ [CHR 0x22] @ ''su 0 chmod 644 /data/misc/user/0/cacerts-added/9a5ba575.0''
                       @ [CHR 0x22]) (- 1)])"
    by (simp only: steps append_Nil)
  have steps': "take 2 ?steps' =
        [WriteFileSync ''/tmp/9a5ba575.0'' ''-----BEGIN CERTIFICATE-----'',
         MountAsRootWritableSystem ''Pixel_5_API_33'']"
    by (simp add: installCert_steps_def example_platform_def example_device_def
        AndroidDevice_new_def)
  have before: "\<forall>j<1. call_error ?h' ([] @ take j ?steps') (?steps' ! j) = None"
    by (simp add: installCert_steps_def call_error_def example_platform_def)
  have at: "call_error ?h' ([] @ take 1 ?steps') (?steps' ! 1) = Some (Error ''remount failed'')"
    by (simp add: installCert_steps_def call_error_def example_platform_def)
  have one: "(1::nat) < 4" by simp
  from installCert_steps_in_order [of ?h' ?c' ?d "[]"] hash' pem' one before at
  have "installCert ?h' ?c' ?d [] = (Inl (Error ''remount failed''), [] @ take (Suc 1) ?steps')"
    by blast
  then have second: "installCert ?h' ?c' ?d [] =
      (Inl (Error ''remount failed''),
        [WriteFileSync ''/tmp/9a5ba575.0'' ''-----BEGIN CERTIFICATE-----'',
         MountAsRootWritableSystem ''Pixel_5_API_33''])"
    using steps' by (simp add: numeral_2_eq_2)
  from installCert_steps_in_order [of ?h ?none ?d "[]"] hash0
  have third: "installCert ?h ?none ?d [] = (Inl (Error ''Too few bytes to parse DER.''), [])"
    by blast
  from first second third show ?thesis by blast
qed

text \<open>
  C8. On a device with a Play Store image, \<open>boot\<close> with the writable system asked for
  raises the policy error at once: no call is made (no emulator is started) and the
  device is as it was, so a port at the sentinel \<open>-1\<close> stays there. With the writable
  system not asked for, \<open>boot\<close> on the same device goes on to start the emulator.
\<close>

theorem boot_play_store_writable:
  assumes "isPlayStore d"
  shows "boot h waitForBoot True d tr =
           (Inl (SfError ''Play Store devices cannot be booted with writable system.''), d, tr)
         \<and> (port d = - 1 \<longrightarrow> port (fst (snd (boot h waitForBoot True d tr))) = - 1)
         \<and> boot h waitForBoot False d tr =
             (case startEmulator_result h tr (deviceId d) False waitForBoot of
                Inl e \<Rightarrow> (Inl e, d, tr @ [StartEmulator (deviceId d) False waitForBoot])
              | Inr p \<Rightarrow> (Inr (), d\<lparr>port := p\<rparr>, tr @ [StartEmulator (deviceId d) False waitForBoot]))"
  using assms by (simp add: boot_def startEmulator_def split: sum.splits)

theorem boot_play_store_writable_witness:
  "isPlayStore (example_device True)
   \<and> port (example_device True) = - 1
   \<and> boot (example_platform Inr) True True (example_device True) [] =
       (Inl (SfError ''Play Store devices cannot be booted with writable system.''),
        example_device True, [])
   \<and> port (fst (snd (boot (example_platform Inr) True True (example_device True) []))) = - 1
   \<and> boot (example_platform Inr) True False (example_device True) [] =
       (Inr (), (example_device True)\<lparr>port := 5554\<rparr>, [StartEmulator ''Pixel_5_API_33'' False True])"
proof -
  have ps: "isPlayStore (example_device True)"
    by (simp add: example_device_def AndroidDevice_new_def)
  have p: "port (example_device True) = - 1"
    by (simp add: example_device_def AndroidDevice_new_def)
  have i: "deviceId (example_device True) = ''Pixel_5_API_33''"
    by (simp add: example_device_def AndroidDevice_new_def)
  have e: "startEmulator_result (example_platform Inr) [] ''Pixel_5_API_33'' False True = Inr 5554"
    by (simp add: example_platform_def)
  from boot_play_store_writable [OF ps, of "example_platform Inr" True "[]"] p i e
  show ?thesis using ps by simp
qed

text \<open>
  C9. On a device that has not been booted (its port is the sentinel \<open>-1\<close>),
  \<open>reboot(waitForBoot)\<close> is \<open>boot(waitForBoot)\<close>: the same call, the same result, the
  same device and trace after it. Only on a device with a live port does \<open>reboot\<close>
  issue the reboot command of the emulator, and it leaves the device as it was.
\<close>

theorem reboot_cold_is_boot:
  "(port d = - 1 \<longrightarrow>
      reboot h waitForBoot d tr = boot h waitForBoot False d tr
      \<and> snd (snd (reboot h waitForBoot d tr)) = tr @ [StartEmulator (deviceId d) False waitForBoot])
   \<and> (port d \<noteq> - 1 \<longrightarrow>
      reboot h waitForBoot d tr =
        (rebootEmulator_result h tr (port d) waitForBoot, d, tr @ [RebootEmulator (port d) waitForBoot]))"
  by (simp add: reboot_def boot_def startEmulator_def rebootEmulator_def split: sum.splits)

theorem reboot_cold_is_boot_witness:
  "port (example_device False) = - 1
   \<and> reboot (example_platform Inr) True (example_device False) [] =
       boot (example_platform Inr) True False (example_device False) []
   \<and> snd (snd (reboot (example_platform Inr) True (example_device False) [])) =
       [StartEmulator ''Pixel_5_API_33'' False True]
   \<and> port ((example_device False)\<lparr>port := 5554\<rparr>) \<noteq> - 1
   \<and> reboot (example_platform Inr) True ((example_device False)\<lparr>port := 5554\<rparr>) [] =
       (Inr (), (example_device False)\<lparr>port := 5554\<rparr>, [RebootEmulator 5554 True])"
proof -
  have p: "port (example_device False) = - 1"
    by (simp add: example_device_def AndroidDevice_new_def)
  have i: "deviceId (example_device False) = ''Pixel_5_API_33''"
    by (simp add: example_device_def AndroidDevice_new_def)
  have q: "port ((example_device False)\<lparr>port := 5554\<rparr>) \<noteq> - 1"
    by simp
  have r: "rebootEmulator_result (example_platform Inr) [] 5554 True = Inr ()"
    by (simp add: example_platform_def)
  from reboot_cold_is_boot [of "example_device False" "example_platform Inr" True "[]"] p
  have "reboot (example_platform Inr) True (example_device False) [] =
                boot (example_platform Inr) True False (example_device False) []
              \<and> snd (snd (reboot (example_platform Inr) True (example_device False) [])) =
                [] @ [StartEmulator (deviceId (example_device False)) False True]"
    by blast
  then have cold: "reboot (example_platform Inr) True (example_device False) [] =
                boot (example_platform Inr) True False (example_device False) []
              \<and> snd (snd (reboot (example_platform Inr) True (example_device False) [])) =
                [StartEmulator ''Pixel_5_API_33'' False True]"
    unfolding i append_Nil .
  from reboot_cold_is_boot
         [of "(example_device False)\<lparr>port := 5554\<rparr>" "example_platform Inr" True "[]"] q r
  have "reboot (example_platform Inr) True ((example_device False)\<lparr>port := 5554\<rparr>) [] =
       (Inr (), (example_device False)\<lparr>port := 5554\<rparr>, [RebootEmulator 5554 True])"
    by simp
  with cold p q show ?thesis by blast
qed

lemma split_on_not_Nil: "split_on sep s \<noteq> []"
  by (induction s) (simp_all add: prepend_char_def split: list.splits)

lemma split_on_first:
  "(case split_on sep s of [] \<Rightarrow> u | p # _ \<Rightarrow> p) = takeWhile (\<lambda>c. c \<noteq> sep) s"
proof (induction s)
  case Nil
  show ?case by simp
next
  case (Cons c cs)
  then show ?case
    using split_on_not_Nil [of sep cs]
    by (cases "split_on sep cs") (simp_all add: prepend_char_def)
qed

lemma trim_empty: "trim s = [] \<longleftrightarrow> (\<forall>c\<in>set s. isWhiteSpace c)"
proof
  assume "trim s = []"
  then have "\<forall>c\<in>set (dropWhile isWhiteSpace s). isWhiteSpace c"
    by (simp add: trim_def)
  then have "dropWhile isWhiteSpace s = []"
    using hd_dropWhile [of isWhiteSpace s] hd_in_set [of "dropWhile isWhiteSpace s"] by blast
  then show "\<forall>c\<in>set s. isWhiteSpace c"
    by simp
next
  assume "\<forall>c\<in>set s. isWhiteSpace c"
  then show "trim s = []"
    by (auto simp: trim_def dest: set_dropWhileD)
qed

text \<open>
  C10. \<open>hasApp\<close> never raises. It makes one adb query, for the package id that is the
  target up to its first \<open>/\<close>. Its result is true exactly when that query succeeds
  with an output that is not all white space, and false when the output is empty or
  white space or the query throws.
\<close>

theorem hasApp_never_raises:
  \<open>snd (hasApp h target d tr) =
      tr @ [AdbCommand (''shell pm list packages | grep "''
                          @ takeWhile (\<lambda>c. c \<noteq> CHR ''/'') target @ ''"'') (port d)]
   \<and> fst (hasApp h target d tr) =
      Inr (case adbCommand_result h tr
                  (''shell pm list packages | grep "''
                     @ takeWhile (\<lambda>c. c \<noteq> CHR ''/'') target @ ''"'') (port d) of
             Inl e \<Rightarrow> False
           | Inr out \<Rightarrow> \<exists>c\<in>set out. \<not> isWhiteSpace c)\<close>
  by (auto simp: hasApp_def executeAdbCommand_def split_on_first trim_empty Let_def
      split: sum.splits)

theorem hasApp_never_raises_witness:
  "fst (hasApp (example_platform Inr) ''com.x/.Activity'' (example_device False) []) = Inr True
   \<and> snd (hasApp (example_platform Inr) ''com.x/.Activity'' (example_device False) []) =
       [AdbCommand (''shell pm list packages | grep '' @ [CHR 0x22] @ ''com.x'' @ [CHR 0x22]) (- 1)]
   \<and> fst (hasApp (example_platform (\<lambda>command. Inl (Error ''device offline'')))
            ''com.x/.Activity'' (example_device False) []) = Inr False
   \<and> fst (hasApp (example_platform (\<lambda>command. Inr [CHR 0x0A]))
            ''com.x/.Activity'' (example_device False) []) = Inr False"
proof -
  have p: "port (example_device False) = - 1"
    by (simp add: example_device_def AndroidDevice_new_def)
  have pkg: "takeWhile (\<lambda>c. c \<noteq> CHR ''/'') ''com.x/.Activity'' = ''com.x''"
    by simp
  have a: "\<And>adb tr command n. adbCommand_result (example_platform adb) tr command n = adb command"
    by (simp add: example_platform_def)
  have ws: "isWhiteSpace (CHR 0x0A)" "\<not> isWhiteSpace CHR ''s''"
    by (simp_all add: isWhiteSpace_def)
  from hasApp_never_raises [of "example_platform Inr" "''com.x/.Activity''" "example_device False" "[]"]
  have one: "fst (hasApp (example_platform Inr) ''com.x/.Activity'' (example_device False) []) = Inr True
     \<and> snd (hasApp (example_platform Inr) ''com.x/.Activity'' (example_device False) []) =
       [AdbCommand (''shell pm list packages | grep '' @ [CHR 0x22] @ ''com.x'' @ [CHR 0x22]) (- 1)]"
    unfolding pkg p a using ws by simp
  from hasApp_never_raises [of "example_platform (\<lambda>command. Inl (Error ''device offline''))"
         "''com.x/.Activity''" "example_device False" "[]"]
  have two: "fst (hasApp (example_platform (\<lambda>command. Inl (Error ''device offline'')))
            ''com.x/.Activity'' (example_device False) []) = Inr False"
    unfolding pkg p a by simp
  from hasApp_never_raises [of "example_platform (\<lambda>command. Inr [CHR 0x0A])"
         "''com.x/.Activity''" "example_device False" "[]"]
  have three: "fst (hasApp (example_platform (\<lambda>command. Inr [CHR 0x0A]))
            ''com.x/.Activity'' (example_device False) []) = Inr False"
    unfolding pkg p a using ws by simp
  from one two three show ?thesis by blast
qed

end
